theory Spec2Isabelle
  imports Main "HOL-Library.Word"
begin

section \<open>The run-watch command of \<^verbatim>\<open>pkg/cmd/run/watch/watch.go\<close>\<close>

text \<open>
  The command polls a workflow run until its status is \<^verbatim>\<open>completed\<close> and redraws a
  report at every poll.  Everything the Go code does beyond computing values (calls to the
  API client, reads of the clock, writes to the output stream, sleeping) is recorded, in
  order, in a trace of events, so that properties about when something is fetched, written
  or slept are statements about that trace.
\<close>

subsection \<open>Data\<close>

text \<open>
  Modelled from the spec: the package \<^verbatim>\<open>pkg/cmd/run/shared\<close> (types \<^verbatim>\<open>Run\<close>, \<^verbatim>\<open>Job\<close>,
  \<^verbatim>\<open>Annotation\<close>, \<^verbatim>\<open>Status\<close>, \<^verbatim>\<open>Conclusion\<close> and the constants \<^verbatim>\<open>Completed\<close> and
  \<^verbatim>\<open>Failure\<close>) is not part of the sources at hand.  The spec gives a run an identifier, a
  status, a conclusion and a creation timestamp; a job a display name, a status and a
  conclusion; an annotation a message and a severity.  Status and conclusion are strings
  decoded from the API's answer, the terminal status being "completed" and the failing
  conclusion "failure".
\<close>

type_synonym Status = string
type_synonym Conclusion = string

definition Completed :: Status where
  "Completed = ''completed''"

definition Failure :: Conclusion where
  "Failure = ''failure''"

text \<open>Points in time are nanoseconds since the epoch; a \<^verbatim>\<open>time.Duration\<close> is an
  \<^verbatim>\<open>int64\<close> count of nanoseconds.\<close>

type_synonym Time = int
type_synonym Duration = "64 word"

record Run =
  ID :: int
  CreatedAt :: Time
  Status :: Status
  Conclusion :: Conclusion

record Job =
  JobName :: string
  JobStatus :: Status
  JobConclusion :: Conclusion

record Annotation =
  Message :: string
  Level :: string

text \<open>
  Go errors.  \<open>errors_New s\<close> is \<^verbatim>\<open>errors.New(s)\<close>, \<open>Errorf ctx e\<close> is
  \<^verbatim>\<open>fmt.Errorf(ctx + ": %w", e)\<close> and \<open>FlagError e\<close> is \<^verbatim>\<open>&cmdutil.FlagError{Err: e}\<close>.
  A function returning \<^verbatim>\<open>error\<close> returns an \<open>error option\<close> (\<open>None\<close> is \<^verbatim>\<open>nil\<close>); a
  function returning a value and an error returns \<open>error + 'a\<close>.
\<close>

datatype error =
    errors_New string
  | Errorf string error
  | FlagError error

fun Error :: "error \<Rightarrow> string" where
  "Error (errors_New s) = s"
| "Error (Errorf ctx e) = ctx @ '': '' @ Error e"
| "Error (FlagError e) = Error e"

fun Unwrap :: "error \<Rightarrow> error option" where
  "Unwrap (errors_New s) = None"
| "Unwrap (Errorf ctx e) = Some e"
| "Unwrap (FlagError e) = Some e"

text \<open>
  \<^verbatim>\<open>WatchOptions\<close>.  \<^verbatim>\<open>Interval\<close> is a Go \<^verbatim>\<open>int\<close> (64 bits on the platforms the tool is
  built for).  The fields \<^verbatim>\<open>IO\<close>, \<^verbatim>\<open>HttpClient\<close>, \<^verbatim>\<open>BaseRepo\<close> and \<^verbatim>\<open>Now\<close> are
  collaborators and live in the environment below.
\<close>

record WatchOptions =
  RunID :: string
  Interval :: "64 word"
  Prompt :: bool

subsection \<open>The environment and the trace\<close>

datatype event =
    CallHttpClient
  | CallBaseRepo
  | CallPromptForRun
  | CallGetRun string
  | CallPullRequestForRun Run
  | CallNow
  | CallGetJobs Run
  | CallGetAnnotations Job
  | CallRenderRunHeader Run string string
  | CallRenderJobs "Job list" bool
  | CallRenderAnnotations "Annotation list"
  | Fprint string
  | Fprintln string
  | Sleep Duration

text \<open>
  The collaborators of the command, none of which is in the sources at hand, are parameters.
  An answer of the API or of the clock may differ from call to call, so it is a function of
  the number of calls of that kind made so far (the argument of each call is in the
  trace).  The rendering helpers are functions to strings.
\<close>

record env =
  CanPrompt :: bool
  HttpClient :: "error option"
  BaseRepo :: "error option"
  PromptForRun :: "error + string"
  GetRun :: "nat \<Rightarrow> error + Run"
  PullRequestForRun :: "nat \<Rightarrow> error + int"
  GetJobs :: "nat \<Rightarrow> error + Job list"
  GetAnnotations :: "nat \<Rightarrow> error + Annotation list"
  Now :: "nat \<Rightarrow> Time"
  FuzzyAgo :: "Duration \<Rightarrow> string"
  Bold :: "string \<Rightarrow> string"
  Boldf :: "string \<Rightarrow> int \<Rightarrow> string"
  RenderRunHeader :: "Run \<Rightarrow> string \<Rightarrow> string \<Rightarrow> string"
  RenderJobs :: "Job list \<Rightarrow> bool \<Rightarrow> string"
  RenderAnnotations :: "Annotation list \<Rightarrow> string"

record world =
  trace :: "event list"
  run_calls :: nat
  pr_calls :: nat
  jobs_calls :: nat
  annotation_calls :: nat
  now_calls :: nat

definition emit :: "event \<Rightarrow> world \<Rightarrow> world" where
  "emit e w = w\<lparr>trace := trace w @ [e]\<rparr>"

definition call_GetRun :: "env \<Rightarrow> string \<Rightarrow> world \<Rightarrow> (error + Run) \<times> world" where
  "call_GetRun E runID w =
     (GetRun E (run_calls w), emit (CallGetRun runID) (w\<lparr>run_calls := Suc (run_calls w)\<rparr>))"

definition call_PullRequestForRun :: "env \<Rightarrow> Run \<Rightarrow> world \<Rightarrow> (error + int) \<times> world" where
  "call_PullRequestForRun E run w =
     (PullRequestForRun E (pr_calls w),
      emit (CallPullRequestForRun run) (w\<lparr>pr_calls := Suc (pr_calls w)\<rparr>))"

definition call_GetJobs :: "env \<Rightarrow> Run \<Rightarrow> world \<Rightarrow> (error + Job list) \<times> world" where
  "call_GetJobs E run w =
     (GetJobs E (jobs_calls w), emit (CallGetJobs run) (w\<lparr>jobs_calls := Suc (jobs_calls w)\<rparr>))"

definition call_GetAnnotations ::
  "env \<Rightarrow> Job \<Rightarrow> world \<Rightarrow> (error + Annotation list) \<times> world" where
  "call_GetAnnotations E job w =
     (GetAnnotations E (annotation_calls w),
      emit (CallGetAnnotations job) (w\<lparr>annotation_calls := Suc (annotation_calls w)\<rparr>))"

definition call_Now :: "env \<Rightarrow> world \<Rightarrow> Time \<times> world" where
  "call_Now E w = (Now E (now_calls w), emit CallNow (w\<lparr>now_calls := Suc (now_calls w)\<rparr>))"

subsection \<open>Formatting and time arithmetic of the Go library\<close>

fun digits :: "nat \<Rightarrow> string" where
  "digits n =
     (if n < 10 then [''0123456789'' ! n]
      else digits (n div 10) @ [''0123456789'' ! (n mod 10)])"

declare digits.simps [simp del]

text \<open>\<^verbatim>\<open>fmt.Sprintf("%d", i)\<close>.\<close>

definition Sprintf_d :: "int \<Rightarrow> string" where
  "Sprintf_d i = (if i < 0 then ''-'' @ digits (nat (- i)) else digits (nat i))"

text \<open>\<^verbatim>\<open>t.Sub(u)\<close>: the difference, saturating at the ends of the \<^verbatim>\<open>int64\<close> range.\<close>

definition time_Sub :: "Time \<Rightarrow> Time \<Rightarrow> Duration" where
  "time_Sub t u = word_of_int (max (- (2 ^ 63)) (min (2 ^ 63 - 1) (t - u)))"

definition ESC :: char where
  "ESC = CHR 0x1B"

definition emits :: "event list \<Rightarrow> world \<Rightarrow> world" where
  "emits es w = w\<lparr>trace := trace w @ es\<rparr>"

subsection \<open>\<^verbatim>\<open>renderRun\<close>\<close>

text \<open>
  The loop over the jobs in \<^verbatim>\<open>renderRun\<close>, which appends each job's annotations to
  \<^verbatim>\<open>annotations\<close> and breaks at the first failing fetch.  It returns \<^verbatim>\<open>annotationErr\<close>
  and \<^verbatim>\<open>annotations\<close> as they stand when the loop is left.
\<close>

fun annotations_loop ::
  "env \<Rightarrow> Job list \<Rightarrow> Annotation list \<Rightarrow> world \<Rightarrow> (error option \<times> Annotation list) \<times> world" where
  "annotations_loop E [] annotations w = ((None, annotations), w)"
| "annotations_loop E (job # jobs) annotations w =
     (case call_GetAnnotations E job w of
        (Inl annotationErr, w') \<Rightarrow> ((Some annotationErr, annotations), w')
      | (Inr as, w') \<Rightarrow> annotations_loop E jobs (annotations @ as) w')"

text \<open>The writes of \<^verbatim>\<open>renderRun\<close> up to its test for a run that failed with no job.\<close>

definition header_events :: "WatchOptions \<Rightarrow> env \<Rightarrow> Run \<Rightarrow> Duration \<Rightarrow> string \<Rightarrow> event list" where
  "header_events opts E run ago prNumber =
     [Fprint (ESC # ''[0;0H''),
      Fprint (ESC # ''[J''),
      Fprintln (Boldf E ''Refreshing run status every %d seconds. Press Ctrl+C to quit.''
                  (sint (Interval opts))),
      Fprintln [],
      CallRenderRunHeader run (FuzzyAgo E ago) prNumber,
      Fprintln (RenderRunHeader E run (FuzzyAgo E ago) prNumber),
      Fprintln []]"

text \<open>The job list, and the annotations section when there is an annotation.\<close>

definition jobs_events :: "env \<Rightarrow> Job list \<Rightarrow> event list" where
  "jobs_events E jobs =
     [Fprintln (Bold E ''JOBS''),
      CallRenderJobs jobs True,
      Fprintln (RenderJobs E jobs True)]"

definition annotations_events :: "env \<Rightarrow> Annotation list \<Rightarrow> event list" where
  "annotations_events E annotations =
     (if length annotations > 0
      then [Fprintln [],
            Fprintln (Bold E ''ANNOTATIONS''),
            CallRenderAnnotations annotations,
            Fprintln (RenderAnnotations E annotations)]
      else [])"

text \<open>
  \<^verbatim>\<open>renderRun\<close> returns a run and an error; its caller reads the run only when the error
  is \<^verbatim>\<open>nil\<close>, so the result is \<open>Inl\<close> of the error or \<open>Inr\<close> of the run.
\<close>

definition renderRun ::
  "WatchOptions \<Rightarrow> env \<Rightarrow> Run \<Rightarrow> string \<Rightarrow> world \<Rightarrow> (error + Run) \<times> world" where
  "renderRun opts E run prNumber w =
     (case call_GetRun E (Sprintf_d (ID run)) w of
        (Inl err, w1) \<Rightarrow> (Inl (Errorf ''failed to get run'' err), w1)
      | (Inr run', w1) \<Rightarrow>
          (case call_Now E w1 of
             (now, w2) \<Rightarrow>
               (let ago = time_Sub now (CreatedAt run') in
                case call_GetJobs E run' w2 of
                  (Inl err, w3) \<Rightarrow> (Inl (Errorf ''failed to get jobs'' err), w3)
                | (Inr jobs, w3) \<Rightarrow>
                    (case annotations_loop E jobs [] w3 of
                       ((Some annotationErr, annotations), w4) \<Rightarrow>
                         (Inl (Errorf ''failed to get annotations'' annotationErr), w4)
                     | ((None, annotations), w4) \<Rightarrow>
                         (let w5 = emits (header_events opts E run' ago prNumber) w4 in
                          if length jobs = 0 \<and> Conclusion run' = Failure then (Inr run', w5)
                          else
                            (let w6 = emits (jobs_events E jobs) w5;
                                 w7 = emits (annotations_events E annotations) w6
                             in (Inr run', w7)))))))"

subsection \<open>\<^verbatim>\<open>watchRun\<close>\<close>

text \<open>
  The polling loop of \<^verbatim>\<open>watchRun\<close>.  Nothing bounds the number of its iterations, so its
  result is an option: \<open>None\<close> when the loop never ends.
\<close>

partial_function (option) watch_loop ::
  "WatchOptions \<Rightarrow> env \<Rightarrow> Run \<Rightarrow> string \<Rightarrow> world \<Rightarrow> (error option \<times> world) option" where
  "watch_loop opts E run prNumber w =
     (if Status run \<noteq> Completed then
        (case renderRun opts E run prNumber w of
           (Inl err, w') \<Rightarrow> Some (Some err, w')
         | (Inr run', w') \<Rightarrow>
             watch_loop opts E run' prNumber (emit (Sleep (Interval opts * 1000)) w'))
      else Some (None, w))"

definition watchRun :: "WatchOptions \<Rightarrow> env \<Rightarrow> world \<Rightarrow> (error option \<times> world) option" where
  "watchRun opts E w =
     (let w1 = emit CallHttpClient w in
      case HttpClient E of
        Some err \<Rightarrow> Some (Some (Errorf ''failed to create http client'' err), w1)
      | None \<Rightarrow>
          (let w2 = emit CallBaseRepo w1 in
           case BaseRepo E of
             Some err \<Rightarrow> Some (Some (Errorf ''failed to determine base repo'' err), w2)
           | None \<Rightarrow>
               (case (if Prompt opts then (PromptForRun E, emit CallPromptForRun w2)
                      else (Inr (RunID opts), w2)) of
                  (Inl err, w3) \<Rightarrow> Some (Some err, w3)
                | (Inr runID, w3) \<Rightarrow>
                    (case call_GetRun E runID w3 of
                       (Inl err, w4) \<Rightarrow> Some (Some (Errorf ''failed to get run'' err), w4)
                     | (Inr run, w4) \<Rightarrow>
                         (case call_PullRequestForRun E run w4 of
                            (res, w5) \<Rightarrow>
                              (let prNumber = (case res of
                                                 Inr number \<Rightarrow> '' #'' @ Sprintf_d number
                                               | Inl err \<Rightarrow> []);
                                   w6 = emit (Fprint (ESC # ''[2J'')) w5
                               in watch_loop opts E run prNumber w6))))))"

subsection \<open>\<^verbatim>\<open>NewCmdWatch\<close>\<close>

text \<open>The options \<^verbatim>\<open>NewCmdWatch\<close> builds: the interval is fixed at 2.\<close>

definition NewCmdWatch_opts :: WatchOptions where
  "NewCmdWatch_opts = \<lparr>RunID = [], Interval = 2, Prompt = False\<rparr>"


subsection \<open>Observations on traces\<close>

text \<open>
  The state \<^verbatim>\<open>renderRun\<close> has reached once the run, the jobs and the annotations of the
  first \<open>n\<close> jobs have been requested.
\<close>

definition fetched :: "world \<Rightarrow> Run \<Rightarrow> Run \<Rightarrow> Job list \<Rightarrow> nat \<Rightarrow> world" where
  "fetched w run r jobs n =
     w\<lparr>run_calls := Suc (run_calls w), now_calls := Suc (now_calls w),
       jobs_calls := Suc (jobs_calls w),
       annotation_calls := annotation_calls w + n,
       trace := trace w @ [CallGetRun (Sprintf_d (ID run)), CallNow, CallGetJobs r]
                  @ map CallGetAnnotations (take n jobs)\<rparr>"

text \<open>
  The world in which \<^verbatim>\<open>watchRun\<close> enters its loop, when the client and the repository were
  obtained, the run was selected as \<open>runID\<close> and the initial fetch returned \<open>run\<close>.
\<close>

definition loop_entry :: "WatchOptions \<Rightarrow> string \<Rightarrow> Run \<Rightarrow> world \<Rightarrow> world" where
  "loop_entry opts runID run w =
     w\<lparr>run_calls := Suc (run_calls w), pr_calls := Suc (pr_calls w),
       trace := trace w @ [CallHttpClient, CallBaseRepo]
                  @ (if Prompt opts then [CallPromptForRun] else [])
                  @ [CallGetRun runID, CallPullRequestForRun run, Fprint (ESC # ''[2J'')]\<rparr>"

text \<open>Writes to the output stream, and requests of a run, of jobs or of annotations.\<close>

fun is_write :: "event \<Rightarrow> bool" where
  "is_write (Fprint s) = True"
| "is_write (Fprintln s) = True"
| "is_write e = False"

fun is_fetch :: "event \<Rightarrow> bool" where
  "is_fetch (CallGetRun runID) = True"
| "is_fetch (CallGetJobs run) = True"
| "is_fetch (CallGetAnnotations job) = True"
| "is_fetch e = False"

fun is_run_fetch :: "event \<Rightarrow> bool" where
  "is_run_fetch (CallGetRun runID) = True"
| "is_run_fetch e = False"

text \<open>
  Every redraw of the report starts with the cursor-home code, which nothing else writes
  with \<^verbatim>\<open>Fprint\<close>: the renders of a trace are its cursor-home writes.
\<close>

fun is_cursor_home :: "event \<Rightarrow> bool" where
  "is_cursor_home (Fprint s) = (s = ESC # ''[0;0H'')"
| "is_cursor_home e = False"

fun is_sleep :: "event \<Rightarrow> bool" where
  "is_sleep (Sleep d) = True"
| "is_sleep e = False"

fun is_pr_lookup :: "event \<Rightarrow> bool" where
  "is_pr_lookup (CallPullRequestForRun run) = True"
| "is_pr_lookup e = False"

text \<open>The run and the pull-request suffix handed to \<^verbatim>\<open>RenderRunHeader\<close>.\<close>

fun header_of :: "event \<Rightarrow> (Run \<times> string) list" where
  "header_of (CallRenderRunHeader run ago prNumber) = [(run, prNumber)]"
| "header_of e = []"

definition renders :: "event list \<Rightarrow> nat" where
  "renders tr = length (filter is_cursor_home tr)"

definition run_fetches :: "event list \<Rightarrow> nat" where
  "run_fetches tr = length (filter is_run_fetch tr)"

definition sleeps :: "event list \<Rightarrow> event list" where
  "sleeps tr = filter is_sleep tr"

definition headers :: "event list \<Rightarrow> (Run \<times> string) list" where
  "headers tr = concat (map header_of tr)"

text \<open>The jobs whose annotations were requested, and the annotation lists that were rendered.\<close>

fun annotation_fetch_of :: "event \<Rightarrow> Job list" where
  "annotation_fetch_of (CallGetAnnotations job) = [job]"
| "annotation_fetch_of e = []"

fun presented_of :: "event \<Rightarrow> Annotation list list" where
  "presented_of (CallRenderAnnotations annotations) = [annotations]"
| "presented_of e = []"

definition annotation_fetches :: "event list \<Rightarrow> Job list" where
  "annotation_fetches tr = concat (map annotation_fetch_of tr)"

definition presented_annotations :: "event list \<Rightarrow> Annotation list list" where
  "presented_annotations tr = concat (map presented_of tr)"

text \<open>The error and the trace of a finished command; a command that never returns has neither.\<close>

definition returned :: "(error option \<times> world) option \<Rightarrow> error option option" where
  "returned res = map_option fst res"

definition final_trace :: "(error option \<times> world) option \<Rightarrow> event list" where
  "final_trace res = (case res of Some (err, w) \<Rightarrow> trace w | None \<Rightarrow> [])"

subsection \<open>A concrete environment\<close>

text \<open>
  A run that is in progress at the first request and completed from the second on, with two
  jobs and one annotation for each; the theorems below are instantiated on it and on
  variations of it.
\<close>

definition in_progress_run :: Run where
  "in_progress_run = \<lparr>ID = 42, CreatedAt = 0, Status = ''in_progress'', Conclusion = []\<rparr>"

definition completed_run :: Run where
  "completed_run = \<lparr>ID = 42, CreatedAt = 0, Status = ''completed'', Conclusion = ''success''\<rparr>"

definition failed_run :: Run where
  "failed_run = \<lparr>ID = 42, CreatedAt = 0, Status = ''completed'', Conclusion = ''failure''\<rparr>"

definition build_job :: Job where
  "build_job = \<lparr>JobName = ''build'', JobStatus = ''completed'', JobConclusion = ''failure''\<rparr>"

definition test_job :: Job where
  "test_job = \<lparr>JobName = ''test'', JobStatus = ''in_progress'', JobConclusion = []\<rparr>"

definition build_annotation :: Annotation where
  "build_annotation = \<lparr>Message = ''exit code 1'', Level = ''failure''\<rparr>"

definition test_annotation :: Annotation where
  "test_annotation = \<lparr>Message = ''deprecated'', Level = ''warning''\<rparr>"

definition example_env :: env where
  "example_env =
     \<lparr>CanPrompt = True,
      HttpClient = None,
      BaseRepo = None,
      PromptForRun = Inr ''42'',
      GetRun = (\<lambda>k. if k = 0 then Inr in_progress_run else Inr completed_run),
      PullRequestForRun = (\<lambda>k. Inr 7),
      GetJobs = (\<lambda>k. Inr [build_job, test_job]),
      GetAnnotations = (\<lambda>k. if even k then Inr [build_annotation] else Inr [test_annotation]),
      Now = (\<lambda>k. 60000000000),
      FuzzyAgo = (\<lambda>d. ''about 1 minute ago''),
      Bold = (\<lambda>s. s),
      Boldf = (\<lambda>format i. format),
      RenderRunHeader = (\<lambda>run ago prNumber. ''run'' @ prNumber @ '' '' @ ago),
      RenderJobs = (\<lambda>jobs verbose. concat (map JobName jobs)),
      RenderAnnotations = (\<lambda>annotations. concat (map Message annotations))\<rparr>"

definition initial_world :: world where
  "initial_world =
     \<lparr>trace = [], run_calls = 0, pr_calls = 0, jobs_calls = 0, annotation_calls = 0,
      now_calls = 0\<rparr>"

definition api_down :: error where
  "api_down = errors_New ''HTTP 502''"

section \<open>Properties\<close>

subsection \<open>The annotation loop and one call of \<^verbatim>\<open>renderRun\<close>\<close>

lemma annotations_loop_prefix:
  assumes "length ass = k" and "k \<le> length jobs"
    and "\<forall>i<k. GetAnnotations E (annotation_calls w + i) = Inr (ass ! i)"
    and "k < length jobs \<longrightarrow> GetAnnotations E (annotation_calls w + k) = Inl e"
  shows "annotations_loop E jobs acc w =
           ((if k < length jobs then Some e else None, acc @ concat ass),
            w\<lparr>annotation_calls := annotation_calls w + min (Suc k) (length jobs),
              trace := trace w @ map CallGetAnnotations (take (Suc k) jobs)\<rparr>)"
  using assms
proof (induction jobs arbitrary: ass k acc w)
  case Nil
  then show ?case by simp
next
  case (Cons job jobs)
  show ?case
  proof (cases ass)
    case Nil
    with Cons.prems show ?thesis
      by (simp add: call_GetAnnotations_def emit_def)
  next
    case (Cons a ass')
    let ?w' = "emit (CallGetAnnotations job) (w\<lparr>annotation_calls := Suc (annotation_calls w)\<rparr>)"
    from Cons Cons.prems have k: "k = Suc (length ass')" by simp
    have 0: "GetAnnotations E (annotation_calls w) = Inr a"
      using Cons.prems(3) Cons k by (metis add.right_neutral nth_Cons_0 zero_less_Suc)
    have step: "\<forall>i<length ass'. GetAnnotations E (annotation_calls ?w' + i) = Inr (ass' ! i)"
      using Cons.prems(3) Cons k by (auto simp: emit_def)
    have fail: "length ass' < length jobs \<longrightarrow> GetAnnotations E (annotation_calls ?w' + length ass') = Inl e"
      using Cons.prems(4) k by (auto simp: emit_def)
    have le: "length ass' \<le> length jobs" using Cons.prems(2) k by simp
    from Cons.IH[OF refl le step fail, of "acc @ a"] 0 Cons k
    show ?thesis
      by (simp add: call_GetAnnotations_def emit_def)
  qed
qed

lemma annotations_prefix_exists:
  "\<exists>k ass e. length ass = k \<and> k \<le> length jobs
     \<and> (\<forall>i<k. GetAnnotations E (c + i) = Inr (ass ! i))
     \<and> (k < length jobs \<longrightarrow> GetAnnotations E (c + k) = Inl e)"
proof (induction jobs arbitrary: c)
  case Nil
  show ?case by simp
next
  case (Cons job jobs)
  show ?case
  proof (cases "GetAnnotations E c")
    case (Inl e)
    then have "length ([]::Annotation list list) = 0 \<and> 0 \<le> length (job # jobs)
       \<and> (\<forall>i<0. GetAnnotations E (c + i) = Inr ([] ! i))
       \<and> (0 < length (job # jobs) \<longrightarrow> GetAnnotations E (c + 0) = Inl e)" by simp
    then show ?thesis by blast
  next
    case (Inr a)
    from Cons.IH[of "Suc c"] obtain k ass e where
      h: "length ass = k" "k \<le> length jobs"
         "\<forall>i<k. GetAnnotations E (Suc c + i) = Inr (ass ! i)"
         "k < length jobs \<longrightarrow> GetAnnotations E (Suc c + k) = Inl e" by blast
    have "\<forall>i<Suc k. GetAnnotations E (c + i) = Inr ((a # ass) ! i)"
    proof (intro allI impI)
      fix i assume "i < Suc k"
      then show "GetAnnotations E (c + i) = Inr ((a # ass) ! i)"
        using h(3) Inr by (cases i) auto
    qed
    with h have "length (a # ass) = Suc k \<and> Suc k \<le> length (job # jobs)
       \<and> (\<forall>i<Suc k. GetAnnotations E (c + i) = Inr ((a # ass) ! i))
       \<and> (Suc k < length (job # jobs) \<longrightarrow> GetAnnotations E (c + Suc k) = Inl e)" by simp
    then show ?thesis by blast
  qed
qed

lemma renderRun_GetRun_fails:
  assumes "GetRun E (run_calls w) = Inl e"
  shows "renderRun opts E run prNumber w =
           (Inl (Errorf ''failed to get run'' e),
            w\<lparr>run_calls := Suc (run_calls w),
              trace := trace w @ [CallGetRun (Sprintf_d (ID run))]\<rparr>)"
  using assms by (simp add: renderRun_def call_GetRun_def emit_def)

lemma renderRun_GetJobs_fails:
  assumes "GetRun E (run_calls w) = Inr r" and "GetJobs E (jobs_calls w) = Inl e"
  shows "renderRun opts E run prNumber w =
           (Inl (Errorf ''failed to get jobs'' e),
            w\<lparr>run_calls := Suc (run_calls w), now_calls := Suc (now_calls w),
              jobs_calls := Suc (jobs_calls w),
              trace := trace w @ [CallGetRun (Sprintf_d (ID run)), CallNow, CallGetJobs r]\<rparr>)"
  using assms by (simp add: renderRun_def call_GetRun_def call_Now_def call_GetJobs_def emit_def)

lemma renderRun_annotations:
  assumes "GetRun E (run_calls w) = Inr r" and "GetJobs E (jobs_calls w) = Inr jobs"
    and "length ass = k" and "k \<le> length jobs"
    and "\<forall>i<k. GetAnnotations E (annotation_calls w + i) = Inr (ass ! i)"
    and "k < length jobs \<longrightarrow> GetAnnotations E (annotation_calls w + k) = Inl e"
  shows "renderRun opts E run prNumber w =
           (if k < length jobs
            then (Inl (Errorf ''failed to get annotations'' e), fetched w run r jobs (Suc k))
            else (Inr r,
                  emits (header_events opts E r (time_Sub (Now E (now_calls w)) (CreatedAt r)) prNumber
                         @ (if jobs = [] \<and> Conclusion r = Failure then []
                            else jobs_events E jobs @ annotations_events E (concat ass)))
                    (fetched w run r jobs (length jobs))))"
proof -
  let ?w3 = "w\<lparr>run_calls := Suc (run_calls w), now_calls := Suc (now_calls w),
       jobs_calls := Suc (jobs_calls w),
       trace := trace w @ [CallGetRun (Sprintf_d (ID run)), CallNow, CallGetJobs r]\<rparr>"
  have loop: "annotations_loop E jobs [] ?w3 =
           ((if k < length jobs then Some e else None, [] @ concat ass),
            ?w3\<lparr>annotation_calls := annotation_calls ?w3 + min (Suc k) (length jobs),
              trace := trace ?w3 @ map CallGetAnnotations (take (Suc k) jobs)\<rparr>)"
    by (rule annotations_loop_prefix) (use assms in auto)
  show ?thesis
    using assms(1,2,4)
    by (simp add: renderRun_def call_GetRun_def call_Now_def call_GetJobs_def loop fetched_def
        emit_def emits_def Let_def min_def)
qed

lemma filter_GetAnnotations [simp]:
  "filter is_cursor_home (map CallGetAnnotations js) = []"
  "filter is_run_fetch (map CallGetAnnotations js) = []"
  "filter is_sleep (map CallGetAnnotations js) = []"
  "filter is_write (map CallGetAnnotations js) = []"
  "concat (map header_of (map CallGetAnnotations js)) = []"
  by (induction js) auto

lemma measures_header_events [simp]:
  "filter is_cursor_home (header_events opts E r ago pr) = [Fprint (ESC # ''[0;0H'')]"
  "filter is_run_fetch (header_events opts E r ago pr) = []"
  "filter is_sleep (header_events opts E r ago pr) = []"
  "filter is_fetch (header_events opts E r ago pr) = []"
  "concat (map header_of (header_events opts E r ago pr)) = [(r, pr)]"
  by (simp_all add: header_events_def)

lemma measures_jobs_events [simp]:
  "filter is_cursor_home (jobs_events E js) = []"
  "filter is_run_fetch (jobs_events E js) = []"
  "filter is_sleep (jobs_events E js) = []"
  "filter is_fetch (jobs_events E js) = []"
  "concat (map header_of (jobs_events E js)) = []"
  by (simp_all add: jobs_events_def)

lemma measures_annotations_events [simp]:
  "filter is_cursor_home (annotations_events E as) = []"
  "filter is_run_fetch (annotations_events E as) = []"
  "filter is_sleep (annotations_events E as) = []"
  "filter is_fetch (annotations_events E as) = []"
  "concat (map header_of (annotations_events E as)) = []"
  by (auto simp: annotations_events_def)

lemma renderRun_ok:
  assumes "GetRun E (run_calls w) = Inr r"
    and "\<forall>k. \<exists>js. GetJobs E k = Inr js"
    and "\<forall>k. \<exists>as. GetAnnotations E k = Inr as"
  shows "\<exists>jobs anns. renderRun opts E run prNumber w =
           (Inr r,
            emits (header_events opts E r (time_Sub (Now E (now_calls w)) (CreatedAt r)) prNumber
                   @ (if jobs = [] \<and> Conclusion r = Failure then []
                      else jobs_events E jobs @ annotations_events E anns))
              (fetched w run r jobs (length jobs)))"
proof -
  from assms(2) obtain jobs where j: "GetJobs E (jobs_calls w) = Inr jobs" by blast
  define ass where "ass = map (\<lambda>i. projr (GetAnnotations E (annotation_calls w + i))) [0..<length jobs]"
  have a: "\<forall>i<length jobs. GetAnnotations E (annotation_calls w + i) = Inr (ass ! i)"
  proof (intro allI impI)
    fix i assume "i < length jobs"
    moreover from assms(3) obtain as where "GetAnnotations E (annotation_calls w + i) = Inr as" by blast
    ultimately show "GetAnnotations E (annotation_calls w + i) = Inr (ass ! i)"
      by (simp add: ass_def)
  qed
  have l: "length ass = length jobs" by (simp add: ass_def)
  from renderRun_annotations[OF assms(1) j l order_refl a, of undefined opts run prNumber]
  show ?thesis by auto
qed

lemma watch_loop_completes:
  assumes "\<forall>k. \<exists>js. GetJobs E k = Inr js"
    and "\<forall>k. \<exists>as. GetAnnotations E k = Inr as"
    and "\<forall>k<length rs. GetRun E (run_calls w + k) = Inr (rs ! k)"
    and "\<forall>s\<in>set (butlast (run # rs)). Status s \<noteq> Completed"
    and "Status (last (run # rs)) = Completed"
  shows "\<exists>w'. watch_loop opts E run prNumber w = Some (None, w')
           \<and> run_calls w' = run_calls w + length rs
           \<and> run_fetches (trace w') = run_fetches (trace w) + length rs
           \<and> renders (trace w') = renders (trace w) + length rs
           \<and> headers (trace w') = headers (trace w) @ map (\<lambda>r. (r, prNumber)) rs
           \<and> sleeps (trace w') = sleeps (trace w) @ replicate (length rs) (Sleep (Interval opts * 1000))
           \<and> (rs \<noteq> [] \<longrightarrow> last (trace w') = Sleep (Interval opts * 1000))
           \<and> (rs = [] \<longrightarrow> w' = w)"
  using assms(3-5)
proof (induction rs arbitrary: run w)
  case Nil
  then show ?case by (subst watch_loop.simps) simp
next
  case (Cons r rs)
  from Cons.prems(1) have r: "GetRun E (run_calls w) = Inr r" by force
  from Cons.prems(2) have nc: "Status run \<noteq> Completed" by simp
  from renderRun_ok[OF r assms(1,2), of opts run prNumber] obtain jobs anns where
    rr: "renderRun opts E run prNumber w =
           (Inr r,
            emits (header_events opts E r (time_Sub (Now E (now_calls w)) (CreatedAt r)) prNumber
                   @ (if jobs = [] \<and> Conclusion r = Failure then []
                      else jobs_events E jobs @ annotations_events E anns))
              (fetched w run r jobs (length jobs)))" by blast
  define w1 where "w1 = emit (Sleep (Interval opts * 1000))
     (emits (header_events opts E r (time_Sub (Now E (now_calls w)) (CreatedAt r)) prNumber
                   @ (if jobs = [] \<and> Conclusion r = Failure then []
                      else jobs_events E jobs @ annotations_events E anns))
              (fetched w run r jobs (length jobs)))"
  have unfold: "watch_loop opts E run prNumber w = watch_loop opts E r prNumber w1"
    by (subst watch_loop.simps) (simp add: nc rr w1_def)
  have c1: "run_calls w1 = Suc (run_calls w)"
    by (simp add: w1_def emit_def emits_def fetched_def)
  have t1: "run_fetches (trace w1) = Suc (run_fetches (trace w))"
    by (simp add: w1_def emit_def emits_def fetched_def run_fetches_def)
  have t2: "renders (trace w1) = Suc (renders (trace w))"
    by (simp add: w1_def emit_def emits_def fetched_def renders_def)
  have t3: "headers (trace w1) = headers (trace w) @ [(r, prNumber)]"
    by (simp add: w1_def emit_def emits_def fetched_def headers_def)
  have t4: "sleeps (trace w1) = sleeps (trace w) @ [Sleep (Interval opts * 1000)]"
    by (simp add: w1_def emit_def emits_def fetched_def sleeps_def)
  have t5: "last (trace w1) = Sleep (Interval opts * 1000)"
    by (simp add: w1_def emit_def)
  have p1: "\<forall>k<length rs. GetRun E (run_calls w1 + k) = Inr (rs ! k)"
    using Cons.prems(1) c1 by fastforce
  have p2: "\<forall>s\<in>set (butlast (r # rs)). Status s \<noteq> Completed"
    using Cons.prems(2) by simp
  have p3: "Status (last (r # rs)) = Completed"
    using Cons.prems(3) by simp
  from Cons.IH[OF p1 p2 p3] obtain w' where
    ih: "watch_loop opts E r prNumber w1 = Some (None, w')"
      "run_calls w' = run_calls w1 + length rs"
      "run_fetches (trace w') = run_fetches (trace w1) + length rs"
      "renders (trace w') = renders (trace w1) + length rs"
      "headers (trace w') = headers (trace w1) @ map (\<lambda>r. (r, prNumber)) rs"
      "sleeps (trace w') = sleeps (trace w1) @ replicate (length rs) (Sleep (Interval opts * 1000))"
      "rs \<noteq> [] \<longrightarrow> last (trace w') = Sleep (Interval opts * 1000)"
      "rs = [] \<longrightarrow> w' = w1" by blast
  have "last (trace w') = Sleep (Interval opts * 1000)"
    using ih(7,8) t5 by (cases rs) auto
  with ih unfold c1 t1 t2 t3 t4 show ?case
    by (simp add: replicate_app_Cons_same)
qed

lemma renderRun_cases [case_names run_fails jobs_fail annotations_fail rendered]:
  obtains
    e where "GetRun E (run_calls w) = Inl e"
      "renderRun opts E run prNumber w =
         (Inl (Errorf ''failed to get run'' e),
          w\<lparr>run_calls := Suc (run_calls w),
            trace := trace w @ [CallGetRun (Sprintf_d (ID run))]\<rparr>)"
  | r e where "GetRun E (run_calls w) = Inr r" "GetJobs E (jobs_calls w) = Inl e"
      "renderRun opts E run prNumber w =
         (Inl (Errorf ''failed to get jobs'' e),
          w\<lparr>run_calls := Suc (run_calls w), now_calls := Suc (now_calls w),
            jobs_calls := Suc (jobs_calls w),
            trace := trace w @ [CallGetRun (Sprintf_d (ID run)), CallNow, CallGetJobs r]\<rparr>)"
  | r jobs k e where "GetRun E (run_calls w) = Inr r" "GetJobs E (jobs_calls w) = Inr jobs"
      "k < length jobs"
      "\<forall>i<k. \<exists>as. GetAnnotations E (annotation_calls w + i) = Inr as"
      "GetAnnotations E (annotation_calls w + k) = Inl e"
      "renderRun opts E run prNumber w =
         (Inl (Errorf ''failed to get annotations'' e), fetched w run r jobs (Suc k))"
  | r jobs ass where "GetRun E (run_calls w) = Inr r" "GetJobs E (jobs_calls w) = Inr jobs"
      "length ass = length jobs"
      "\<forall>i<length jobs. GetAnnotations E (annotation_calls w + i) = Inr (ass ! i)"
      "renderRun opts E run prNumber w =
         (Inr r,
          emits (header_events opts E r (time_Sub (Now E (now_calls w)) (CreatedAt r)) prNumber
                 @ (if jobs = [] \<and> Conclusion r = Failure then []
                    else jobs_events E jobs @ annotations_events E (concat ass)))
            (fetched w run r jobs (length jobs)))"
proof (cases "GetRun E (run_calls w)")
  case (Inl e)
  with renderRun_GetRun_fails[OF Inl] that(1) show ?thesis by blast
next
  case (Inr r)
  note r = this
  show ?thesis
  proof (cases "GetJobs E (jobs_calls w)")
    case (Inl e)
    with renderRun_GetJobs_fails[OF r Inl] that(2) r show ?thesis by blast
  next
    case (Inr jobs)
    from annotations_prefix_exists[of jobs E "annotation_calls w"] obtain k ass e where
      h: "length ass = k" "k \<le> length jobs"
         "\<forall>i<k. GetAnnotations E (annotation_calls w + i) = Inr (ass ! i)"
         "k < length jobs \<longrightarrow> GetAnnotations E (annotation_calls w + k) = Inl e" by blast
    note rr = renderRun_annotations[OF r Inr h, of opts run prNumber]
    show ?thesis
    proof (cases "k < length jobs")
      case True
      with rr h that(3)[OF r Inr True] show ?thesis by auto
    next
      case False
      with h have "k = length jobs" by simp
      with rr h that(4)[OF r Inr, of ass] show ?thesis by auto
    qed
  qed
qed

lemma filter_pr_events [simp]:
  "filter is_pr_lookup (map CallGetAnnotations js) = []"
  "filter is_pr_lookup (header_events opts E r ago pr) = []"
  "filter is_pr_lookup (jobs_events E js) = []"
  "filter is_pr_lookup (annotations_events E as) = []"
  by (induction js) (auto simp: header_events_def jobs_events_def annotations_events_def)

lemma filter_write_events [simp]:
  "filter is_write (header_events opts E r ago pr) =
     [Fprint (ESC # ''[0;0H''), Fprint (ESC # ''[J''),
      Fprintln (Boldf E ''Refreshing run status every %d seconds. Press Ctrl+C to quit.''
                  (sint (Interval opts))),
      Fprintln [], Fprintln (RenderRunHeader E r (FuzzyAgo E ago) pr), Fprintln []]"
  by (simp add: header_events_def)

lemma renderRun_effect:
  obtains es where
    "trace (snd (renderRun opts E run prNumber w)) = trace w @ es"
    "pr_calls (snd (renderRun opts E run prNumber w)) = pr_calls w"
    "run_calls (snd (renderRun opts E run prNumber w)) = Suc (run_calls w)"
    "filter is_pr_lookup es = []"
    "filter is_sleep es = []"
    "filter is_run_fetch es = [CallGetRun (Sprintf_d (ID run))]"
    "concat (map header_of es) =
       (case fst (renderRun opts E run prNumber w) of Inl err \<Rightarrow> [] | Inr r \<Rightarrow> [(r, prNumber)])"
    "length (filter is_cursor_home es) =
       (case fst (renderRun opts E run prNumber w) of Inl err \<Rightarrow> 0 | Inr r \<Rightarrow> 1)"
proof (cases rule: renderRun_cases[of E w opts run prNumber])
  case (run_fails e)
  show ?thesis
    by (rule that[of "[CallGetRun (Sprintf_d (ID run))]"]) (simp_all add: run_fails)
next
  case (jobs_fail r e)
  show ?thesis
    by (rule that[of "[CallGetRun (Sprintf_d (ID run)), CallNow, CallGetJobs r]"])
       (simp_all add: jobs_fail)
next
  case (annotations_fail r jobs k e)
  show ?thesis
    by (rule that[of "[CallGetRun (Sprintf_d (ID run)), CallNow, CallGetJobs r]
                       @ map CallGetAnnotations (take (Suc k) jobs)"])
       (simp_all add: annotations_fail fetched_def)
next
  case (rendered r jobs ass)
  show ?thesis
    by (rule that[of "[CallGetRun (Sprintf_d (ID run)), CallNow, CallGetJobs r]
                       @ map CallGetAnnotations jobs
                       @ header_events opts E r (time_Sub (Now E (now_calls w)) (CreatedAt r)) prNumber
                       @ (if jobs = [] \<and> Conclusion r = Failure then []
                          else jobs_events E jobs @ annotations_events E (concat ass))"])
       (simp_all add: rendered fetched_def emits_def)
qed

lemma watch_loop_trace:
  "watch_loop opts E run prNumber w = Some y \<Longrightarrow>
     \<exists>es. trace (snd y) = trace w @ es
        \<and> pr_calls (snd y) = pr_calls w
        \<and> filter is_pr_lookup es = []
        \<and> (\<forall>h\<in>set (concat (map header_of es)). snd h = prNumber)
        \<and> length (filter is_sleep es) = length (filter is_cursor_home es)
        \<and> (\<forall>s\<in>set (filter is_sleep es). s = Sleep (Interval opts * 1000))
        \<and> length (filter is_run_fetch es) = run_calls (snd y) - run_calls w
        \<and> run_calls w \<le> run_calls (snd y)"
proof (induction rule: watch_loop.raw_induct[rotated 1, consumes 1])
  case (1 loop opts E run prNumber w y)
  show ?case
  proof (cases "Status run = Completed")
    case True
    with "1.hyps" have "y = (None, w)" by simp
    then show ?thesis by (intro exI[of _ "[]"]) simp
  next
    case False
    obtain es where es:
      "trace (snd (renderRun opts E run prNumber w)) = trace w @ es"
      "pr_calls (snd (renderRun opts E run prNumber w)) = pr_calls w"
      "run_calls (snd (renderRun opts E run prNumber w)) = Suc (run_calls w)"
      "filter is_pr_lookup es = []"
      "filter is_sleep es = []"
      "filter is_run_fetch es = [CallGetRun (Sprintf_d (ID run))]"
      "concat (map header_of es) =
         (case fst (renderRun opts E run prNumber w) of Inl err \<Rightarrow> [] | Inr r \<Rightarrow> [(r, prNumber)])"
      "length (filter is_cursor_home es) =
         (case fst (renderRun opts E run prNumber w) of Inl err \<Rightarrow> 0 | Inr r \<Rightarrow> 1)"
      by (rule renderRun_effect)
    obtain res w1 where rr: "renderRun opts E run prNumber w = (res, w1)" by (cases "renderRun opts E run prNumber w")
    show ?thesis
    proof (cases res)
      case (Inl err)
      with "1.hyps" False rr have "y = (Some err, w1)" by simp
      with es rr Inl show ?thesis
        by (intro exI[of _ es]) (auto simp: filter_empty_conv)
    next
      case (Inr r)
      with "1.hyps" False rr have
        "loop opts E r prNumber (emit (Sleep (Interval opts * 1000)) w1) = Some y" by simp
      from "1.IH"[OF this] obtain es2 where es2:
        "trace (snd y) = trace (emit (Sleep (Interval opts * 1000)) w1) @ es2"
        "pr_calls (snd y) = pr_calls (emit (Sleep (Interval opts * 1000)) w1)"
        "filter is_pr_lookup es2 = []"
        "\<forall>h\<in>set (concat (map header_of es2)). snd h = prNumber"
        "length (filter is_sleep es2) = length (filter is_cursor_home es2)"
        "\<forall>s\<in>set (filter is_sleep es2). s = Sleep (Interval opts * 1000)"
        "length (filter is_run_fetch es2) = run_calls (snd y) - run_calls (emit (Sleep (Interval opts * 1000)) w1)"
        "run_calls (emit (Sleep (Interval opts * 1000)) w1) \<le> run_calls (snd y)"
        by blast
      have "trace (snd y) = trace w @ (es @ Sleep (Interval opts * 1000) # es2)"
        using es2(1) es(1) rr by (simp add: emit_def)
      moreover have "pr_calls (snd y) = pr_calls w"
        using es2(2) es(2) rr by (simp add: emit_def)
      moreover have "filter is_pr_lookup (es @ Sleep (Interval opts * 1000) # es2) = []"
        using es2(3) es(4) by simp
      moreover have "\<forall>h\<in>set (concat (map header_of (es @ Sleep (Interval opts * 1000) # es2))). snd h = prNumber"
        using es2(4) es(7) rr Inr by auto
      moreover have "length (filter is_sleep (es @ Sleep (Interval opts * 1000) # es2))
                   = length (filter is_cursor_home (es @ Sleep (Interval opts * 1000) # es2))"
        using es2(5) es(5,8) rr Inr by simp
      moreover have "\<forall>s\<in>set (filter is_sleep (es @ Sleep (Interval opts * 1000) # es2)). s = Sleep (Interval opts * 1000)"
        using es2(6) es(5) by (auto simp: filter_empty_conv)
      moreover have "length (filter is_run_fetch (es @ Sleep (Interval opts * 1000) # es2)) = run_calls (snd y) - run_calls w"
        using es2(7,8) es(3,6) rr by (simp add: emit_def)
      moreover have "run_calls w \<le> run_calls (snd y)"
        using es2(8) es(3) rr by (simp add: emit_def)
      ultimately show ?thesis by blast
    qed
  qed
qed

lemma renderRun_success_answers:
  assumes "renderRun opts E run prNumber w = (Inr r, w1)"
  shows "GetRun E (run_calls w) = Inr r \<and> run_calls w1 = Suc (run_calls w)
       \<and> (\<exists>js. GetJobs E (jobs_calls w) = Inr js) \<and> jobs_calls w1 = Suc (jobs_calls w)
       \<and> annotation_calls w \<le> annotation_calls w1
       \<and> (\<forall>k. annotation_calls w \<le> k \<and> k < annotation_calls w1 \<longrightarrow> (\<exists>as. GetAnnotations E k = Inr as))"
proof (cases rule: renderRun_cases[of E w opts run prNumber])
  case (run_fails e)
  with assms show ?thesis by simp
next
  case (jobs_fail r e)
  with assms show ?thesis by simp
next
  case (annotations_fail r jobs k e)
  with assms show ?thesis by simp
next
  case (rendered r' jobs ass)
  have "\<exists>as. GetAnnotations E k = Inr as"
    if "annotation_calls w \<le> k" "k < annotation_calls w + length jobs" for k
  proof -
    from that have "k - annotation_calls w < length jobs" by simp
    with rendered(4) have "GetAnnotations E (annotation_calls w + (k - annotation_calls w)) = Inr (ass ! (k - annotation_calls w))"
      by blast
    with that show ?thesis by simp
  qed
  with rendered assms show ?thesis
    by (auto simp: fetched_def emits_def)
qed

lemma watch_loop_nil_answers:
  "watch_loop opts E run prNumber w = Some y \<Longrightarrow>
     fst y = None \<longrightarrow>
       (\<forall>k. run_calls w \<le> k \<and> k < run_calls (snd y) \<longrightarrow> (\<exists>r. GetRun E k = Inr r))
     \<and> (\<forall>k. jobs_calls w \<le> k \<and> k < jobs_calls (snd y) \<longrightarrow> (\<exists>js. GetJobs E k = Inr js))
     \<and> (\<forall>k. annotation_calls w \<le> k \<and> k < annotation_calls (snd y) \<longrightarrow> (\<exists>as. GetAnnotations E k = Inr as))"
proof (induction rule: watch_loop.raw_induct[rotated 1, consumes 1])
  case (1 loop opts E run prNumber w y)
  show ?case
  proof (cases "Status run = Completed")
    case True
    with "1.hyps" have "y = (None, w)" by simp
    then show ?thesis by auto
  next
    case False
    obtain res w1 where rr: "renderRun opts E run prNumber w = (res, w1)" by (cases "renderRun opts E run prNumber w")
    show ?thesis
    proof (cases res)
      case (Inl err)
      with "1.hyps" False rr have "y = (Some err, w1)" by simp
      then show ?thesis by simp
    next
      case (Inr r)
      with "1.hyps" False rr have
        "loop opts E r prNumber (emit (Sleep (Interval opts * 1000)) w1) = Some y" by simp
      note ih = "1.IH"[OF this]
      note st = renderRun_success_answers[OF rr[unfolded Inr]]
      show ?thesis
      proof (intro impI conjI allI)
        fix k assume n: "fst y = None" and k: "run_calls w \<le> k \<and> k < run_calls (snd y)"
        show "\<exists>r. GetRun E k = Inr r"
        proof (cases "k = run_calls w")
          case True with st show ?thesis by simp
        next
          case False
          with k st have "run_calls (emit (Sleep (Interval opts * 1000)) w1) \<le> k" by (simp add: emit_def)
          with ih n k show ?thesis by blast
        qed
      next
        fix k assume n: "fst y = None" and k: "jobs_calls w \<le> k \<and> k < jobs_calls (snd y)"
        show "\<exists>js. GetJobs E k = Inr js"
        proof (cases "k = jobs_calls w")
          case True with st show ?thesis by simp
        next
          case False
          with k st have "jobs_calls (emit (Sleep (Interval opts * 1000)) w1) \<le> k" by (simp add: emit_def)
          with ih n k show ?thesis by blast
        qed
      next
        fix k assume n: "fst y = None" and k: "annotation_calls w \<le> k \<and> k < annotation_calls (snd y)"
        show "\<exists>as. GetAnnotations E k = Inr as"
        proof (cases "k < annotation_calls w1")
          case True with st k show ?thesis by blast
        next
          case False
          then have "annotation_calls (emit (Sleep (Interval opts * 1000)) w1) \<le> k" by (simp add: emit_def)
          with ih n k show ?thesis by blast
        qed
      qed
    qed
  qed
qed

section \<open>The claims\<close>

subsection \<open>C1: one render per non-terminal snapshot\<close>

lemma nonterminal_count:
  assumes "\<forall>s\<in>set (butlast (run # rs)). Status s \<noteq> Completed"
    and "Status (last (run # rs)) = Completed"
  shows "length (filter (\<lambda>s. Status s \<noteq> Completed) (run # rs)) = length rs"
proof -
  have "run # rs = butlast (run # rs) @ [last (run # rs)]" by simp
  then have "filter (\<lambda>s. Status s \<noteq> Completed) (run # rs)
      = filter (\<lambda>s. Status s \<noteq> Completed) (butlast (run # rs))
        @ filter (\<lambda>s. Status s \<noteq> Completed) [last (run # rs)]"
    by (metis filter_append)
  also have "\<dots> = butlast (run # rs)"
    using assms by (simp add: filter_id_conv)
  finally show ?thesis by simp
qed

text \<open>
  Claim C1.  Let the run of the initial fetch be \<open>run\<close> and let the fetches of the loop
  return the runs \<open>rs\<close>, the last of \<open>run # rs\<close> being the first with status completed (the
  fetches of jobs and annotations succeed, so that every iteration reaches its end).  Then
  the loop returns without error; it has rendered exactly once per non-terminal snapshot
  of \<open>run # rs\<close> (the report of each iteration shows the run fetched in it); it has
  requested the run exactly \<open>length rs\<close> times, so nothing is fetched or rendered after the
  completed snapshot; and when the initial run is already completed the world is left as
  it was: the body of the loop never ran.
\<close>

theorem watch_loop_renders_until_completed:
  assumes "\<forall>k. \<exists>js. GetJobs E k = Inr js"
    and "\<forall>k. \<exists>as. GetAnnotations E k = Inr as"
    and "\<forall>k<length rs. GetRun E (run_calls w + k) = Inr (rs ! k)"
    and "\<forall>s\<in>set (butlast (run # rs)). Status s \<noteq> Completed"
    and "Status (last (run # rs)) = Completed"
  shows "\<exists>w'. watch_loop opts E run prNumber w = Some (None, w')
           \<and> renders (trace w') =
               renders (trace w) + length (filter (\<lambda>s. Status s \<noteq> Completed) (run # rs))
           \<and> headers (trace w') = headers (trace w) @ map (\<lambda>r. (r, prNumber)) rs
           \<and> run_fetches (trace w') = run_fetches (trace w) + length rs
           \<and> run_calls w' = run_calls w + length rs
           \<and> (Status run = Completed \<longrightarrow> w' = w)"
proof -
  from watch_loop_completes[OF assms, of opts prNumber] obtain w' where
    w': "watch_loop opts E run prNumber w = Some (None, w')"
      "run_calls w' = run_calls w + length rs"
      "run_fetches (trace w') = run_fetches (trace w) + length rs"
      "renders (trace w') = renders (trace w) + length rs"
      "headers (trace w') = headers (trace w) @ map (\<lambda>r. (r, prNumber)) rs"
      "rs = [] \<longrightarrow> w' = w" by blast
  have "Status run = Completed \<longrightarrow> rs = []"
    using assms(4) by (cases rs) auto
  with w' nonterminal_count[OF assms(4,5)] show ?thesis by simp
qed

theorem watch_loop_renders_until_completed_witness:
  "returned (watch_loop NewCmdWatch_opts example_env in_progress_run [] initial_world) = Some None
   \<and> renders (final_trace (watch_loop NewCmdWatch_opts example_env in_progress_run [] initial_world)) = 2
   \<and> headers (final_trace (watch_loop NewCmdWatch_opts example_env in_progress_run [] initial_world))
       = [(in_progress_run, []), (completed_run, [])]
   \<and> run_fetches (final_trace (watch_loop NewCmdWatch_opts example_env in_progress_run [] initial_world)) = 2"
proof -
  have jobs: "\<forall>k. \<exists>js. GetJobs example_env k = Inr js"
    by (simp add: example_env_def)
  have annotations: "\<forall>k. \<exists>as. GetAnnotations example_env k = Inr as"
    by (simp add: example_env_def)
  have runs: "\<forall>k<length [in_progress_run, completed_run].
      GetRun example_env (run_calls initial_world + k) = Inr ([in_progress_run, completed_run] ! k)"
    by (simp add: example_env_def initial_world_def less_Suc_eq)
  have running: "\<forall>s\<in>set (butlast (in_progress_run # [in_progress_run, completed_run])).
      Status s \<noteq> Completed"
    by (simp add: in_progress_run_def Completed_def)
  have ended: "Status (last (in_progress_run # [in_progress_run, completed_run])) = Completed"
    by (simp add: completed_run_def Completed_def)
  from watch_loop_renders_until_completed
    [OF jobs annotations runs running ended, of NewCmdWatch_opts "[]"]
  show ?thesis
    by (auto simp: initial_world_def in_progress_run_def completed_run_def Completed_def
        returned_def final_trace_def renders_def headers_def run_fetches_def)
qed

subsection \<open>C2: the duration of the sleep\<close>

lemma example_answers:
  "\<forall>k. \<exists>js. GetJobs example_env k = Inr js"
  "\<forall>k. \<exists>as. GetAnnotations example_env k = Inr as"
  by (simp_all add: example_env_def)

text \<open>
  Claim C2 says that the loop sleeps for \<^verbatim>\<open>Interval\<close> seconds between two iterations, as
  the line the command prints says ("Refreshing run status every %d seconds").  The code
  sleeps for \<^verbatim>\<open>time.Duration(opts.Interval * 1000)\<close>, a number of nanoseconds.  With the
  options of \<^verbatim>\<open>NewCmdWatch\<close> (interval 2) and a run that completes at the second fetch of
  the loop, both sleeps last 2000 nanoseconds, where two seconds are 2000000000.
\<close>

theorem watch_loop_sleeps_two_microseconds:
  "returned (watch_loop NewCmdWatch_opts example_env in_progress_run [] initial_world) = Some None
   \<and> sleeps (final_trace (watch_loop NewCmdWatch_opts example_env in_progress_run [] initial_world))
       = [Sleep 2000, Sleep 2000]
   \<and> sint (2000 :: Duration) = 2000
   \<and> sint (Interval NewCmdWatch_opts) * 1000000000 = 2000000000"
proof -
  have runs: "\<forall>k<length [in_progress_run, completed_run].
      GetRun example_env (run_calls initial_world + k) = Inr ([in_progress_run, completed_run] ! k)"
    by (simp add: example_env_def initial_world_def less_Suc_eq)
  have running: "\<forall>s\<in>set (butlast (in_progress_run # [in_progress_run, completed_run])).
      Status s \<noteq> Completed"
    by (simp add: in_progress_run_def Completed_def)
  have ended: "Status (last (in_progress_run # [in_progress_run, completed_run])) = Completed"
    by (simp add: completed_run_def Completed_def)
  from watch_loop_completes[OF example_answers runs running ended, of NewCmdWatch_opts "[]"]
  show ?thesis
    by (auto simp: initial_world_def returned_def final_trace_def sleeps_def NewCmdWatch_opts_def)
qed

subsection \<open>C3: when the loop sleeps\<close>




subsection \<open>C4: the aggregated annotations\<close>

lemma annotation_observations [simp]:
  "concat (map (annotation_fetch_of \<circ> CallGetAnnotations) js) = js"
  "concat (map (presented_of \<circ> CallGetAnnotations) js) = []"
  "concat (map annotation_fetch_of (header_events opts E r ago pr)) = []"
  "concat (map presented_of (header_events opts E r ago pr)) = []"
  "concat (map annotation_fetch_of (jobs_events E js)) = []"
  "concat (map presented_of (jobs_events E js)) = []"
  "concat (map annotation_fetch_of (annotations_events E as)) = []"
  "concat (map presented_of (annotations_events E as)) = (if as = [] then [] else [as])"
  by (induction js) (auto simp: header_events_def jobs_events_def annotations_events_def)

text \<open>
  Claim C4.  Let the run and its jobs be fetched, and let the annotation fetches of the
  first \<open>k\<close> jobs return the lists \<open>ass\<close>, the fetch for job \<open>k\<close> failing with \<open>e\<close> when there
  is such a job.  The loop over the jobs leaves \<open>concat ass\<close> in \<^verbatim>\<open>annotations\<close>: the lists in
  job order, nothing dropped or reordered, of length the sum of their lengths.  When every
  fetch succeeds (\<open>k = length jobs\<close>) the annotations were requested for every job in
  order and that list is the one handed to \<^verbatim>\<open>RenderAnnotations\<close> (nothing is handed over
  when it is empty).  When the fetch for job \<open>k\<close> fails, annotations were requested for the
  jobs up to \<open>k\<close> only, none is rendered, and \<^verbatim>\<open>renderRun\<close> returns that error, wrapped.
\<close>

theorem renderRun_annotations_in_job_order:
  assumes "GetRun E (run_calls w) = Inr r" and "GetJobs E (jobs_calls w) = Inr jobs"
    and "length ass = k" and "k \<le> length jobs"
    and "\<forall>i<k. GetAnnotations E (annotation_calls w + i) = Inr (ass ! i)"
    and "k < length jobs \<longrightarrow> GetAnnotations E (annotation_calls w + k) = Inl e"
  shows "fst (annotations_loop E jobs [] w) =
           (if k < length jobs then Some e else None, concat ass)
       \<and> length (concat ass) = sum_list (map length ass)
       \<and> (k = length jobs \<longrightarrow>
            fst (renderRun opts E run prNumber w) = Inr r
          \<and> annotation_fetches (trace (snd (renderRun opts E run prNumber w)))
              = annotation_fetches (trace w) @ jobs
          \<and> presented_annotations (trace (snd (renderRun opts E run prNumber w)))
              = presented_annotations (trace w) @ (if concat ass = [] then [] else [concat ass]))
       \<and> (k < length jobs \<longrightarrow>
            fst (renderRun opts E run prNumber w) = Inl (Errorf ''failed to get annotations'' e)
          \<and> annotation_fetches (trace (snd (renderRun opts E run prNumber w)))
              = annotation_fetches (trace w) @ take (Suc k) jobs
          \<and> presented_annotations (trace (snd (renderRun opts E run prNumber w)))
              = presented_annotations (trace w))"
proof -
  note loop = annotations_loop_prefix[OF assms(3-6), of "[]"]
  note rr = renderRun_annotations[OF assms, of opts run prNumber]
  have empty: "concat ass = []" if "jobs = []"
    using that assms(3,4) by simp
  show ?thesis
  proof (cases "k < length jobs")
    case True
    with loop rr show ?thesis
      by (simp add: length_concat fetched_def annotation_fetches_def presented_annotations_def)
  next
    case False
    with assms(4) have k: "k = length jobs" by simp
    show ?thesis
    proof (cases "jobs = [] \<and> Conclusion r = Failure")
      case True
      with loop rr k empty show ?thesis
        by (simp add: length_concat fetched_def emits_def annotation_fetches_def
            presented_annotations_def)
    next
      case False
      with loop rr k show ?thesis
        by (simp add: length_concat fetched_def emits_def annotation_fetches_def
            presented_annotations_def)
    qed
  qed
qed

theorem renderRun_annotations_in_job_order_witness:
  "fst (renderRun NewCmdWatch_opts example_env in_progress_run [] initial_world) = Inr in_progress_run
   \<and> annotation_fetches (trace (snd (renderRun NewCmdWatch_opts example_env in_progress_run []
        initial_world))) = [build_job, test_job]
   \<and> presented_annotations (trace (snd (renderRun NewCmdWatch_opts example_env in_progress_run []
        initial_world))) = [[build_annotation, test_annotation]]
   \<and> fst (renderRun NewCmdWatch_opts
            (example_env\<lparr>GetAnnotations := (\<lambda>k. if k = 0 then Inr [build_annotation] else Inl api_down)\<rparr>)
            in_progress_run [] initial_world) = Inl (Errorf ''failed to get annotations'' api_down)
   \<and> presented_annotations (trace (snd (renderRun NewCmdWatch_opts
            (example_env\<lparr>GetAnnotations := (\<lambda>k. if k = 0 then Inr [build_annotation] else Inl api_down)\<rparr>)
            in_progress_run [] initial_world))) = []"
proof -
  let ?E = "example_env\<lparr>GetAnnotations := (\<lambda>k. if k = 0 then Inr [build_annotation] else Inl api_down)\<rparr>"
  have r: "GetRun example_env (run_calls initial_world) = Inr in_progress_run"
    by (simp add: example_env_def initial_world_def)
  have j: "GetJobs example_env (jobs_calls initial_world) = Inr [build_job, test_job]"
    by (simp add: example_env_def)
  have l: "length [[build_annotation], [test_annotation]] = 2" by simp
  have le: "2 \<le> length [build_job, test_job]" by simp
  have a: "\<forall>i<2. GetAnnotations example_env (annotation_calls initial_world + i)
               = Inr ([[build_annotation], [test_annotation]] ! i)"
    by (simp add: example_env_def initial_world_def less_Suc_eq numeral_2_eq_2)
  have f: "2 < length [build_job, test_job] \<longrightarrow>
             GetAnnotations example_env (annotation_calls initial_world + 2) = Inl api_down"
    by simp
  have r': "GetRun ?E (run_calls initial_world) = Inr in_progress_run"
    by (simp add: example_env_def initial_world_def)
  have j': "GetJobs ?E (jobs_calls initial_world) = Inr [build_job, test_job]"
    by (simp add: example_env_def)
  have l': "length [[build_annotation]] = 1" by simp
  have le': "1 \<le> length [build_job, test_job]" by simp
  have a': "\<forall>i<1. GetAnnotations ?E (annotation_calls initial_world + i)
               = Inr ([[build_annotation]] ! i)"
    by (simp add: initial_world_def)
  have f': "1 < length [build_job, test_job] \<longrightarrow>
             GetAnnotations ?E (annotation_calls initial_world + 1) = Inl api_down"
    by (simp add: initial_world_def)
  from renderRun_annotations_in_job_order[OF r j l le a f, of NewCmdWatch_opts in_progress_run "[]"]
       renderRun_annotations_in_job_order[OF r' j' l' le' a' f', of NewCmdWatch_opts in_progress_run "[]"]
  show ?thesis
    by (simp add: initial_world_def annotation_fetches_def presented_annotations_def)
qed

subsection \<open>C5: a failing fetch aborts the watch\<close>

lemma renderRun_annotation_fails:
  assumes "GetRun E (run_calls w) = Inr r" and "GetJobs E (jobs_calls w) = Inr jobs"
    and "k < length jobs"
    and "\<forall>i<k. \<exists>as. GetAnnotations E (annotation_calls w + i) = Inr as"
    and "GetAnnotations E (annotation_calls w + k) = Inl e"
  shows "renderRun opts E run prNumber w =
           (Inl (Errorf ''failed to get annotations'' e), fetched w run r jobs (Suc k))"
proof -
  define ass where "ass = map (\<lambda>i. projr (GetAnnotations E (annotation_calls w + i))) [0..<k]"
  have a: "\<forall>i<k. GetAnnotations E (annotation_calls w + i) = Inr (ass ! i)"
  proof (intro allI impI)
    fix i assume i: "i < k"
    with assms(4) obtain as where "GetAnnotations E (annotation_calls w + i) = Inr as" by blast
    with i show "GetAnnotations E (annotation_calls w + i) = Inr (ass ! i)"
      by (simp add: ass_def)
  qed
  have l: "length ass = k" by (simp add: ass_def)
  from assms(3) have le: "k \<le> length jobs" by simp
  from assms(5) have f: "k < length jobs \<longrightarrow> GetAnnotations E (annotation_calls w + k) = Inl e"
    by simp
  from renderRun_annotations[OF assms(1,2) l le a f, of opts run prNumber] assms(3)
  show ?thesis by simp
qed

text \<open>
  Claim C5.  In any iteration (the loop entered with a run that is not completed, in any
  world), a failing fetch of the run, of the jobs or of the annotations of job \<open>k\<close> makes the
  loop return at once the error \<^verbatim>\<open>failed to get run\<close>, \<^verbatim>\<open>failed to get jobs\<close> or
  \<^verbatim>\<open>failed to get annotations\<close> wrapping the error of the fetch.  The final world shows
  what was done: the failing call is the last event, it was made once (no retry), no write
  and no sleep follows, and after a failing jobs fetch no annotation was requested.
\<close>

theorem watch_loop_aborts_on_fetch_error:
  assumes "Status run \<noteq> Completed"
  shows "(GetRun E (run_calls w) = Inl e \<longrightarrow>
            watch_loop opts E run prNumber w =
              Some (Some (Errorf ''failed to get run'' e),
                    w\<lparr>run_calls := Suc (run_calls w),
                      trace := trace w @ [CallGetRun (Sprintf_d (ID run))]\<rparr>))
       \<and> (GetRun E (run_calls w) = Inr r \<and> GetJobs E (jobs_calls w) = Inl e \<longrightarrow>
            watch_loop opts E run prNumber w =
              Some (Some (Errorf ''failed to get jobs'' e),
                    w\<lparr>run_calls := Suc (run_calls w), now_calls := Suc (now_calls w),
                      jobs_calls := Suc (jobs_calls w),
                      trace := trace w @ [CallGetRun (Sprintf_d (ID run)), CallNow, CallGetJobs r]\<rparr>))
       \<and> (GetRun E (run_calls w) = Inr r \<and> GetJobs E (jobs_calls w) = Inr jobs \<and> k < length jobs
          \<and> (\<forall>i<k. \<exists>as. GetAnnotations E (annotation_calls w + i) = Inr as)
          \<and> GetAnnotations E (annotation_calls w + k) = Inl e \<longrightarrow>
            watch_loop opts E run prNumber w =
              Some (Some (Errorf ''failed to get annotations'' e),
                    w\<lparr>run_calls := Suc (run_calls w), now_calls := Suc (now_calls w),
                      jobs_calls := Suc (jobs_calls w),
                      annotation_calls := annotation_calls w + Suc k,
                      trace := trace w @ [CallGetRun (Sprintf_d (ID run)), CallNow, CallGetJobs r]
                                 @ map CallGetAnnotations (take (Suc k) jobs)\<rparr>))
       \<and> Error (Errorf ctx e) = ctx @ '': '' @ Error e \<and> Unwrap (Errorf ctx e) = Some e"
proof -
  have "watch_loop opts E run prNumber w =
          Some (Some (Errorf ''failed to get run'' e),
                w\<lparr>run_calls := Suc (run_calls w),
                  trace := trace w @ [CallGetRun (Sprintf_d (ID run))]\<rparr>)"
    if "GetRun E (run_calls w) = Inl e"
    by (subst watch_loop.simps) (simp add: assms renderRun_GetRun_fails[OF that])
  moreover have "watch_loop opts E run prNumber w =
          Some (Some (Errorf ''failed to get jobs'' e),
                w\<lparr>run_calls := Suc (run_calls w), now_calls := Suc (now_calls w),
                  jobs_calls := Suc (jobs_calls w),
                  trace := trace w @ [CallGetRun (Sprintf_d (ID run)), CallNow, CallGetJobs r]\<rparr>)"
    if "GetRun E (run_calls w) = Inr r" "GetJobs E (jobs_calls w) = Inl e"
    by (subst watch_loop.simps) (simp add: assms renderRun_GetJobs_fails[OF that])
  moreover have "watch_loop opts E run prNumber w =
          Some (Some (Errorf ''failed to get annotations'' e),
                w\<lparr>run_calls := Suc (run_calls w), now_calls := Suc (now_calls w),
                  jobs_calls := Suc (jobs_calls w),
                  annotation_calls := annotation_calls w + Suc k,
                  trace := trace w @ [CallGetRun (Sprintf_d (ID run)), CallNow, CallGetJobs r]
                             @ map CallGetAnnotations (take (Suc k) jobs)\<rparr>)"
    if "GetRun E (run_calls w) = Inr r" "GetJobs E (jobs_calls w) = Inr jobs" "k < length jobs"
       "\<forall>i<k. \<exists>as. GetAnnotations E (annotation_calls w + i) = Inr as"
       "GetAnnotations E (annotation_calls w + k) = Inl e"
    by (subst watch_loop.simps) (simp add: assms renderRun_annotation_fails[OF that] fetched_def)
  ultimately show ?thesis by simp
qed

theorem watch_loop_aborts_on_fetch_error_witness:
  "watch_loop NewCmdWatch_opts (example_env\<lparr>GetRun := (\<lambda>k. Inl api_down)\<rparr>) in_progress_run []
     initial_world
     = Some (Some (Errorf ''failed to get run'' api_down),
             initial_world\<lparr>run_calls := 1, trace := [CallGetRun ''42'']\<rparr>)
   \<and> watch_loop NewCmdWatch_opts (example_env\<lparr>GetJobs := (\<lambda>k. Inl api_down)\<rparr>) in_progress_run []
     initial_world
     = Some (Some (Errorf ''failed to get jobs'' api_down),
             initial_world\<lparr>run_calls := 1, now_calls := 1, jobs_calls := 1,
               trace := [CallGetRun ''42'', CallNow, CallGetJobs in_progress_run]\<rparr>)
   \<and> watch_loop NewCmdWatch_opts
       (example_env\<lparr>GetAnnotations := (\<lambda>k. if k = 0 then Inr [build_annotation] else Inl api_down)\<rparr>)
       in_progress_run [] initial_world
     = Some (Some (Errorf ''failed to get annotations'' api_down),
             initial_world\<lparr>run_calls := 1, now_calls := 1, jobs_calls := 1, annotation_calls := 2,
               trace := [CallGetRun ''42'', CallNow, CallGetJobs in_progress_run,
                         CallGetAnnotations build_job, CallGetAnnotations test_job]\<rparr>)
   \<and> Error (Errorf ''failed to get jobs'' api_down) = ''failed to get jobs: HTTP 502''"
proof -
  have s: "Status in_progress_run \<noteq> Completed"
    by (simp add: in_progress_run_def Completed_def)
  have id: "Sprintf_d (ID in_progress_run) = ''42''"
    by (simp add: in_progress_run_def Sprintf_d_def digits.simps)
  from watch_loop_aborts_on_fetch_error[OF s,
         where E = "example_env\<lparr>GetRun := (\<lambda>k. Inl api_down)\<rparr>" and w = initial_world
           and e = api_down and opts = NewCmdWatch_opts and prNumber = "[]"]
  have 1: "watch_loop NewCmdWatch_opts (example_env\<lparr>GetRun := (\<lambda>k. Inl api_down)\<rparr>)
       in_progress_run [] initial_world
     = Some (Some (Errorf ''failed to get run'' api_down),
             initial_world\<lparr>run_calls := 1, trace := [CallGetRun ''42'']\<rparr>)"
    by (simp add: id initial_world_def)
  from watch_loop_aborts_on_fetch_error[OF s,
         where E = "example_env\<lparr>GetJobs := (\<lambda>k. Inl api_down)\<rparr>" and w = initial_world
           and e = api_down and r = in_progress_run and opts = NewCmdWatch_opts
           and prNumber = "[]" and ctx = "''failed to get jobs''"]
  have 2: "watch_loop NewCmdWatch_opts (example_env\<lparr>GetJobs := (\<lambda>k. Inl api_down)\<rparr>)
       in_progress_run [] initial_world
     = Some (Some (Errorf ''failed to get jobs'' api_down),
             initial_world\<lparr>run_calls := 1, now_calls := 1, jobs_calls := 1,
               trace := [CallGetRun ''42'', CallNow, CallGetJobs in_progress_run]\<rparr>)"
    and 4: "Error (Errorf ''failed to get jobs'' api_down) = ''failed to get jobs: HTTP 502''"
    by (simp_all add: id initial_world_def example_env_def api_down_def)
  from watch_loop_aborts_on_fetch_error[OF s,
         where E = "example_env\<lparr>GetAnnotations :=
                      (\<lambda>k. if k = 0 then Inr [build_annotation] else Inl api_down)\<rparr>"
           and w = initial_world and e = api_down and r = in_progress_run
           and jobs = "[build_job, test_job]" and k = 1
           and opts = NewCmdWatch_opts and prNumber = "[]"]
  have 3: "watch_loop NewCmdWatch_opts
       (example_env\<lparr>GetAnnotations := (\<lambda>k. if k = 0 then Inr [build_annotation] else Inl api_down)\<rparr>)
       in_progress_run [] initial_world
     = Some (Some (Errorf ''failed to get annotations'' api_down),
             initial_world\<lparr>run_calls := 1, now_calls := 1, jobs_calls := 1, annotation_calls := 2,
               trace := [CallGetRun ''42'', CallNow, CallGetJobs in_progress_run,
                         CallGetAnnotations build_job, CallGetAnnotations test_job]\<rparr>)"
    by (simp add: id initial_world_def example_env_def)
  from 1 2 3 4 show ?thesis by simp
qed

subsection \<open>C6: a run that failed before any job ran\<close>

text \<open>
  Claim C6.  When the jobs fetch returns no job and the fetched run's conclusion is
  failure, \<^verbatim>\<open>renderRun\<close> returns the fetched run and no error, having written the two
  control codes and the four lines of the header only: no job list, no annotations
  section.  The loop goes on with the run fetched in this iteration, which is the one its
  next test reads; when that run is completed the watch ends without error.
\<close>

theorem renderRun_failed_run_without_jobs:
  assumes "GetRun E (run_calls w) = Inr r" and "GetJobs E (jobs_calls w) = Inr []"
    and "Conclusion r = Failure"
  shows "renderRun opts E run prNumber w =
           (Inr r,
            w\<lparr>run_calls := Suc (run_calls w), now_calls := Suc (now_calls w),
              jobs_calls := Suc (jobs_calls w),
              trace := trace w @
                [CallGetRun (Sprintf_d (ID run)), CallNow, CallGetJobs r,
                 Fprint (ESC # ''[0;0H''),
                 Fprint (ESC # ''[J''),
                 Fprintln (Boldf E ''Refreshing run status every %d seconds. Press Ctrl+C to quit.''
                             (sint (Interval opts))),
                 Fprintln [],
                 CallRenderRunHeader r
                   (FuzzyAgo E (time_Sub (Now E (now_calls w)) (CreatedAt r))) prNumber,
                 Fprintln (RenderRunHeader E r
                   (FuzzyAgo E (time_Sub (Now E (now_calls w)) (CreatedAt r))) prNumber),
                 Fprintln []]\<rparr>)
       \<and> (Status run \<noteq> Completed \<longrightarrow>
            watch_loop opts E run prNumber w =
              watch_loop opts E r prNumber
                (emit (Sleep (Interval opts * 1000)) (snd (renderRun opts E run prNumber w))))
       \<and> (Status run \<noteq> Completed \<and> Status r = Completed \<longrightarrow>
            watch_loop opts E run prNumber w =
              Some (None, emit (Sleep (Interval opts * 1000))
                            (snd (renderRun opts E run prNumber w))))"
proof -
  have l: "length ([]::Annotation list list) = 0" by simp
  have a: "\<forall>i<0. GetAnnotations E (annotation_calls w + i) = Inr (([]::Annotation list list) ! i)"
    by simp
  have f: "0 < length ([]::Job list) \<longrightarrow> GetAnnotations E (annotation_calls w + 0) = Inl undefined"
    by simp
  from renderRun_annotations[OF assms(1,2) l _ a f, of opts run prNumber] assms(3)
  have rr: "renderRun opts E run prNumber w =
           (Inr r,
            w\<lparr>run_calls := Suc (run_calls w), now_calls := Suc (now_calls w),
              jobs_calls := Suc (jobs_calls w),
              trace := trace w @
                [CallGetRun (Sprintf_d (ID run)), CallNow, CallGetJobs r,
                 Fprint (ESC # ''[0;0H''),
                 Fprint (ESC # ''[J''),
                 Fprintln (Boldf E ''Refreshing run status every %d seconds. Press Ctrl+C to quit.''
                             (sint (Interval opts))),
                 Fprintln [],
                 CallRenderRunHeader r
                   (FuzzyAgo E (time_Sub (Now E (now_calls w)) (CreatedAt r))) prNumber,
                 Fprintln (RenderRunHeader E r
                   (FuzzyAgo E (time_Sub (Now E (now_calls w)) (CreatedAt r))) prNumber),
                 Fprintln []]\<rparr>)"
    by (simp add: fetched_def emits_def header_events_def)
  have step: "watch_loop opts E run prNumber w =
      watch_loop opts E r prNumber
        (emit (Sleep (Interval opts * 1000)) (snd (renderRun opts E run prNumber w)))"
    if "Status run \<noteq> Completed"
    by (subst watch_loop.simps) (simp add: that rr)
  have stop: "watch_loop opts E r prNumber w' = Some (None, w')" if "Status r = Completed" for w'
    by (subst watch_loop.simps) (simp add: that)
  from rr step stop show ?thesis by simp
qed

theorem renderRun_failed_run_without_jobs_witness:
  "fst (renderRun NewCmdWatch_opts
          (example_env\<lparr>GetRun := (\<lambda>k. Inr failed_run), GetJobs := (\<lambda>k. Inr [])\<rparr>)
          in_progress_run '' #7'' initial_world) = Inr failed_run
   \<and> filter is_write (trace (snd (renderRun NewCmdWatch_opts
          (example_env\<lparr>GetRun := (\<lambda>k. Inr failed_run), GetJobs := (\<lambda>k. Inr [])\<rparr>)
          in_progress_run '' #7'' initial_world)))
       = [Fprint (ESC # ''[0;0H''), Fprint (ESC # ''[J''),
          Fprintln ''Refreshing run status every %d seconds. Press Ctrl+C to quit.'',
          Fprintln [], Fprintln ''run #7 about 1 minute ago'', Fprintln []]
   \<and> returned (watch_loop NewCmdWatch_opts
          (example_env\<lparr>GetRun := (\<lambda>k. Inr failed_run), GetJobs := (\<lambda>k. Inr [])\<rparr>)
          in_progress_run '' #7'' initial_world) = Some None"
proof -
  let ?E = "example_env\<lparr>GetRun := (\<lambda>k. Inr failed_run), GetJobs := (\<lambda>k. Inr [])\<rparr>"
  have r: "GetRun ?E (run_calls initial_world) = Inr failed_run" by simp
  have j: "GetJobs ?E (jobs_calls initial_world) = Inr []" by simp
  have c: "Conclusion failed_run = Failure" by (simp add: failed_run_def Failure_def)
  have s: "Status in_progress_run \<noteq> Completed \<and> Status failed_run = Completed"
    by (simp add: in_progress_run_def failed_run_def Completed_def)
  note t = renderRun_failed_run_without_jobs[OF r j c, of NewCmdWatch_opts in_progress_run "'' #7''"]
  from t have 1: "fst (renderRun NewCmdWatch_opts ?E in_progress_run '' #7'' initial_world)
      = Inr failed_run"
    by simp
  from t have "filter is_write (trace (snd (renderRun NewCmdWatch_opts ?E in_progress_run '' #7''
        initial_world)))
      = [Fprint (ESC # ''[0;0H''), Fprint (ESC # ''[J''),
         Fprintln (Boldf ?E ''Refreshing run status every %d seconds. Press Ctrl+C to quit.''
                     (sint (Interval NewCmdWatch_opts))),
         Fprintln [],
         Fprintln (RenderRunHeader ?E failed_run
           (FuzzyAgo ?E (time_Sub (Now ?E (now_calls initial_world)) (CreatedAt failed_run)))
           '' #7''),
         Fprintln []]"
    by (simp add: initial_world_def)
  then have 2: "filter is_write (trace (snd (renderRun NewCmdWatch_opts ?E in_progress_run '' #7''
        initial_world)))
      = [Fprint (ESC # ''[0;0H''), Fprint (ESC # ''[J''),
         Fprintln ''Refreshing run status every %d seconds. Press Ctrl+C to quit.'',
         Fprintln [], Fprintln ''run #7 about 1 minute ago'', Fprintln []]"
    by (simp add: example_env_def)
  from t[THEN conjunct2, THEN conjunct2] s
  have 3: "returned (watch_loop NewCmdWatch_opts ?E in_progress_run '' #7'' initial_world)
      = Some None"
    by (simp add: returned_def)
  from 1 2 3 show ?thesis by simp
qed

subsection \<open>C7: no partial render\<close>

text \<open>
  Claim C7.  What one call of \<^verbatim>\<open>renderRun\<close> adds to the trace is a first part without any
  write, followed by a part without any fetch.  When the call returns an error the second
  part is empty, so the output stream is as it was before the iteration; when it returns a
  run the second part starts with the cursor-home and clear-to-end codes.  Every write of
  an iteration therefore comes after all of its fetches, and only when all succeeded.
\<close>

theorem renderRun_writes_after_all_fetches:
  "\<exists>pre out.
     trace (snd (renderRun opts E run prNumber w)) = trace w @ pre @ out
     \<and> filter is_write pre = []
     \<and> filter is_fetch out = []
     \<and> (\<forall>err. fst (renderRun opts E run prNumber w) = Inl err \<longrightarrow>
          out = []
        \<and> filter is_write (trace (snd (renderRun opts E run prNumber w))) = filter is_write (trace w))
     \<and> (\<forall>r. fst (renderRun opts E run prNumber w) = Inr r \<longrightarrow>
          take 2 out = [Fprint (ESC # ''[0;0H''), Fprint (ESC # ''[J'')])"
proof (cases rule: renderRun_cases[of E w opts run prNumber])
  case (run_fails e)
  show ?thesis
    by (rule exI[of _ "[CallGetRun (Sprintf_d (ID run))]"], rule exI[of _ "[]"])
       (simp add: run_fails)
next
  case (jobs_fail r e)
  show ?thesis
    by (rule exI[of _ "[CallGetRun (Sprintf_d (ID run)), CallNow, CallGetJobs r]"],
        rule exI[of _ "[]"])
       (simp add: jobs_fail)
next
  case (annotations_fail r jobs k e)
  show ?thesis
    by (rule exI[of _ "[CallGetRun (Sprintf_d (ID run)), CallNow, CallGetJobs r]
                        @ map CallGetAnnotations (take (Suc k) jobs)"],
        rule exI[of _ "[]"])
       (simp add: annotations_fail fetched_def)
next
  case (rendered r jobs ass)
  show ?thesis
    by (rule exI[of _ "[CallGetRun (Sprintf_d (ID run)), CallNow, CallGetJobs r]
                        @ map CallGetAnnotations jobs"],
        rule exI[of _ "header_events opts E r (time_Sub (Now E (now_calls w)) (CreatedAt r)) prNumber
                       @ (if jobs = [] \<and> Conclusion r = Failure then []
                          else jobs_events E jobs @ annotations_events E (concat ass))"])
       (simp add: rendered fetched_def emits_def, simp add: header_events_def)
qed

theorem renderRun_writes_after_all_fetches_witness:
  "filter is_write (trace (snd (renderRun NewCmdWatch_opts
      (example_env\<lparr>GetAnnotations := (\<lambda>k. if k = 0 then Inr [build_annotation] else Inl api_down)\<rparr>)
      in_progress_run [] initial_world))) = []
   \<and> fst (renderRun NewCmdWatch_opts
      (example_env\<lparr>GetAnnotations := (\<lambda>k. if k = 0 then Inr [build_annotation] else Inl api_down)\<rparr>)
      in_progress_run [] initial_world) = Inl (Errorf ''failed to get annotations'' api_down)"
proof -
  let ?E = "example_env\<lparr>GetAnnotations := (\<lambda>k. if k = 0 then Inr [build_annotation] else Inl api_down)\<rparr>"
  have r: "GetRun ?E (run_calls initial_world) = Inr in_progress_run"
    by (simp add: example_env_def initial_world_def)
  have j: "GetJobs ?E (jobs_calls initial_world) = Inr [build_job, test_job]"
    by (simp add: example_env_def)
  have a: "\<forall>i<1. \<exists>as. GetAnnotations ?E (annotation_calls initial_world + i) = Inr as"
    by (simp add: initial_world_def)
  have f: "GetAnnotations ?E (annotation_calls initial_world + 1) = Inl api_down"
    by (simp add: initial_world_def)
  have k: "1 < length [build_job, test_job]" by simp
  have fails: "fst (renderRun NewCmdWatch_opts ?E in_progress_run [] initial_world)
      = Inl (Errorf ''failed to get annotations'' api_down)"
    by (simp add: renderRun_annotation_fails[OF r j k a f])
  from renderRun_writes_after_all_fetches[of NewCmdWatch_opts ?E in_progress_run "[]" initial_world]
    fails
  show ?thesis by (auto simp: initial_world_def)
qed

subsection \<open>C8: the pull-request lookup is best effort\<close>

lemma watchRun_enters_loop:
  assumes "HttpClient E = None" and "BaseRepo E = None"
    and "if Prompt opts then PromptForRun E = Inr runID else RunID opts = runID"
    and "GetRun E (run_calls w) = Inr run"
  shows "watchRun opts E w =
           watch_loop opts E run
             (case PullRequestForRun E (pr_calls w) of
                Inl err \<Rightarrow> [] | Inr number \<Rightarrow> '' #'' @ Sprintf_d number)
             (loop_entry opts runID run w)"
  using assms
  by (cases "PullRequestForRun E (pr_calls w)")
     (auto simp: watchRun_def call_GetRun_def call_PullRequestForRun_def emit_def loop_entry_def
       Let_def split: if_splits)

lemma watchRun_nil_answers:
  assumes "watchRun opts E w = Some (None, w')"
  shows "HttpClient E = None \<and> BaseRepo E = None
       \<and> (Prompt opts \<longrightarrow> (\<exists>runID. PromptForRun E = Inr runID))
       \<and> (\<forall>k. run_calls w \<le> k \<and> k < run_calls w' \<longrightarrow> (\<exists>r. GetRun E k = Inr r))
       \<and> (\<forall>k. jobs_calls w \<le> k \<and> k < jobs_calls w' \<longrightarrow> (\<exists>js. GetJobs E k = Inr js))
       \<and> (\<forall>k. annotation_calls w \<le> k \<and> k < annotation_calls w'
              \<longrightarrow> (\<exists>as. GetAnnotations E k = Inr as))"
proof -
  from assms have h: "HttpClient E = None"
    by (cases "HttpClient E") (simp_all add: watchRun_def Let_def)
  from assms h have b: "BaseRepo E = None"
    by (cases "BaseRepo E") (simp_all add: watchRun_def Let_def)
  have p: "\<exists>runID. if Prompt opts then PromptForRun E = Inr runID else RunID opts = runID"
  proof (cases "Prompt opts")
    case True
    with assms h b show ?thesis
      by (cases "PromptForRun E") (simp_all add: watchRun_def Let_def)
  next
    case False
    then show ?thesis by simp
  qed
  then obtain runID where
    id: "if Prompt opts then PromptForRun E = Inr runID else RunID opts = runID" by blast
  have "\<exists>run. GetRun E (run_calls w) = Inr run"
  proof (cases "GetRun E (run_calls w)")
    case (Inl e)
    with assms h b id show ?thesis
      by (auto simp: watchRun_def Let_def call_GetRun_def emit_def split: if_splits)
  next
    case (Inr run)
    then show ?thesis by blast
  qed
  then obtain run where r: "GetRun E (run_calls w) = Inr run" by blast
  from assms watchRun_enters_loop[OF h b id r]
  have "watch_loop opts E run
             (case PullRequestForRun E (pr_calls w) of
                Inl err \<Rightarrow> [] | Inr number \<Rightarrow> '' #'' @ Sprintf_d number)
             (loop_entry opts runID run w) = Some (None, w')" by simp
  from watch_loop_nil_answers[OF this]
  have ans: "(\<forall>k. run_calls (loop_entry opts runID run w) \<le> k \<and> k < run_calls w' \<longrightarrow> (\<exists>r. GetRun E k = Inr r))"
    "(\<forall>k. jobs_calls (loop_entry opts runID run w) \<le> k \<and> k < jobs_calls w' \<longrightarrow> (\<exists>js. GetJobs E k = Inr js))"
    "(\<forall>k. annotation_calls (loop_entry opts runID run w) \<le> k \<and> k < annotation_calls w'
              \<longrightarrow> (\<exists>as. GetAnnotations E k = Inr as))"
    by simp_all
  have "\<exists>r. GetRun E k = Inr r" if "run_calls w \<le> k \<and> k < run_calls w'" for k
  proof (cases "k = run_calls w")
    case True
    with r show ?thesis by simp
  next
    case False
    with that have "run_calls (loop_entry opts runID run w) \<le> k" by (simp add: loop_entry_def)
    with ans(1) that show ?thesis by blast
  qed
  moreover from ans(2) have "\<forall>k. jobs_calls w \<le> k \<and> k < jobs_calls w' \<longrightarrow> (\<exists>js. GetJobs E k = Inr js)"
    by (simp add: loop_entry_def)
  moreover from ans(3) have "\<forall>k. annotation_calls w \<le> k \<and> k < annotation_calls w'
              \<longrightarrow> (\<exists>as. GetAnnotations E k = Inr as)"
    by (simp add: loop_entry_def)
  ultimately show ?thesis using h b p by auto
qed

text \<open>
  Claim C8.  Once the client and the repository are obtained, the run is selected and the
  initial fetch has returned \<open>run\<close>, \<^verbatim>\<open>watchRun\<close> is its loop started with the suffix
  \<^verbatim>\<open>" #<number>"\<close> when the pull-request lookup returned a number and with the empty suffix
  when it failed: the failure is not returned and the loop runs as it would otherwise.
  Every header rendered from then on is given that suffix.  No other failure is swallowed:
  when \<^verbatim>\<open>watchRun\<close> returns \<^verbatim>\<open>nil\<close>, the client, the repository and the prompt (if any)
  succeeded and so did every fetch of a run, of jobs and of annotations that was made.
\<close>

theorem watchRun_swallows_only_the_pr_lookup:
  "(HttpClient E = None \<and> BaseRepo E = None
    \<and> (if Prompt opts then PromptForRun E = Inr runID else RunID opts = runID)
    \<and> GetRun E (run_calls w) = Inr run \<longrightarrow>
      watchRun opts E w =
        watch_loop opts E run
          (case PullRequestForRun E (pr_calls w) of
             Inl err \<Rightarrow> [] | Inr number \<Rightarrow> '' #'' @ Sprintf_d number)
          (loop_entry opts runID run w)
    \<and> (\<forall>res w'. watchRun opts E w = Some (res, w') \<longrightarrow>
          (\<exists>es. trace w' = trace (loop_entry opts runID run w) @ es
             \<and> (\<forall>h\<in>set (headers es).
                   snd h = (case PullRequestForRun E (pr_calls w) of
                              Inl err \<Rightarrow> [] | Inr number \<Rightarrow> '' #'' @ Sprintf_d number)))))
   \<and> (\<forall>w'. watchRun opts E w = Some (None, w') \<longrightarrow>
         HttpClient E = None \<and> BaseRepo E = None
       \<and> (Prompt opts \<longrightarrow> (\<exists>runID. PromptForRun E = Inr runID))
       \<and> (\<forall>k. run_calls w \<le> k \<and> k < run_calls w' \<longrightarrow> (\<exists>r. GetRun E k = Inr r))
       \<and> (\<forall>k. jobs_calls w \<le> k \<and> k < jobs_calls w' \<longrightarrow> (\<exists>js. GetJobs E k = Inr js))
       \<and> (\<forall>k. annotation_calls w \<le> k \<and> k < annotation_calls w'
              \<longrightarrow> (\<exists>as. GetAnnotations E k = Inr as)))"
proof (intro conjI impI allI)
  assume a: "HttpClient E = None \<and> BaseRepo E = None
    \<and> (if Prompt opts then PromptForRun E = Inr runID else RunID opts = runID)
    \<and> GetRun E (run_calls w) = Inr run"
  then show eq: "watchRun opts E w =
        watch_loop opts E run
          (case PullRequestForRun E (pr_calls w) of
             Inl err \<Rightarrow> [] | Inr number \<Rightarrow> '' #'' @ Sprintf_d number)
          (loop_entry opts runID run w)"
    by (intro watchRun_enters_loop) simp_all
  fix res w' assume "watchRun opts E w = Some (res, w')"
  with eq have "watch_loop opts E run
          (case PullRequestForRun E (pr_calls w) of
             Inl err \<Rightarrow> [] | Inr number \<Rightarrow> '' #'' @ Sprintf_d number)
          (loop_entry opts runID run w) = Some (res, w')" by simp
  from watch_loop_trace[OF this]
  show "\<exists>es. trace w' = trace (loop_entry opts runID run w) @ es
             \<and> (\<forall>h\<in>set (headers es).
                   snd h = (case PullRequestForRun E (pr_calls w) of
                              Inl err \<Rightarrow> [] | Inr number \<Rightarrow> '' #'' @ Sprintf_d number))"
    by (auto simp: headers_def)
next
  fix w' assume "watchRun opts E w = Some (None, w')"
  note n = watchRun_nil_answers[OF this]
  from n show "HttpClient E = None" by simp
  from n show "BaseRepo E = None" by simp
  from n show "\<exists>runID. PromptForRun E = Inr runID" if "Prompt opts" using that by simp
  from n show "\<exists>r. GetRun E k = Inr r" if "run_calls w \<le> k \<and> k < run_calls w'" for k
    using that by simp
  from n show "\<exists>js. GetJobs E k = Inr js" if "jobs_calls w \<le> k \<and> k < jobs_calls w'" for k
    using that by simp
  from n show "\<exists>as. GetAnnotations E k = Inr as"
    if "annotation_calls w \<le> k \<and> k < annotation_calls w'" for k
    using that by simp
qed

theorem watchRun_swallows_only_the_pr_lookup_witness:
  "returned (watchRun (NewCmdWatch_opts\<lparr>RunID := ''42''\<rparr>)
       (example_env\<lparr>PullRequestForRun := (\<lambda>k. Inl api_down)\<rparr>) initial_world) = Some None
   \<and> headers (final_trace (watchRun (NewCmdWatch_opts\<lparr>RunID := ''42''\<rparr>)
       (example_env\<lparr>PullRequestForRun := (\<lambda>k. Inl api_down)\<rparr>) initial_world))
       = [(completed_run, [])]
   \<and> returned (watchRun (NewCmdWatch_opts\<lparr>RunID := ''42''\<rparr>) example_env initial_world) = Some None
   \<and> headers (final_trace (watchRun (NewCmdWatch_opts\<lparr>RunID := ''42''\<rparr>) example_env initial_world))
       = [(completed_run, '' #7'')]"
proof -
  let ?opts = "NewCmdWatch_opts\<lparr>RunID := ''42''\<rparr>"
  let ?E = "example_env\<lparr>PullRequestForRun := (\<lambda>k. Inl api_down)\<rparr>"
  let ?w = "loop_entry ?opts ''42'' in_progress_run initial_world"
  have started: "HttpClient ?E = None \<and> BaseRepo ?E = None
      \<and> (if Prompt ?opts then PromptForRun ?E = Inr ''42'' else RunID ?opts = ''42'')
      \<and> GetRun ?E (run_calls initial_world) = Inr in_progress_run"
    "HttpClient example_env = None \<and> BaseRepo example_env = None
      \<and> (if Prompt ?opts then PromptForRun example_env = Inr ''42'' else RunID ?opts = ''42'')
      \<and> GetRun example_env (run_calls initial_world) = Inr in_progress_run"
    by (simp_all add: example_env_def initial_world_def NewCmdWatch_opts_def)
  have seven: "Sprintf_d 7 = ''7''"
    by (simp add: Sprintf_d_def digits.simps)
  from watchRun_swallows_only_the_pr_lookup
         [where E = ?E and opts = ?opts and w = initial_world and runID = "''42''"
            and run = in_progress_run] started(1)
  have failed: "watchRun ?opts ?E initial_world = watch_loop ?opts ?E in_progress_run [] ?w"
    by simp
  have pr: "PullRequestForRun example_env (pr_calls initial_world) = Inr 7"
    by (simp add: example_env_def)
  from watchRun_swallows_only_the_pr_lookup
         [where E = example_env and opts = ?opts and w = initial_world and runID = "''42''"
            and run = in_progress_run, THEN conjunct1, THEN mp, OF started(2), THEN conjunct1]
  have found: "watchRun ?opts example_env initial_world
      = watch_loop ?opts example_env in_progress_run '' #7'' ?w"
    by (simp add: pr seven)
  have jobs: "\<forall>k. \<exists>js. GetJobs ?E k = Inr js" "\<forall>k. \<exists>as. GetAnnotations ?E k = Inr as"
    by (simp_all add: example_env_def)
  have runs: "\<forall>k<length [completed_run]. GetRun ?E (run_calls ?w + k) = Inr ([completed_run] ! k)"
    "\<forall>k<length [completed_run]. GetRun example_env (run_calls ?w + k) = Inr ([completed_run] ! k)"
    by (simp_all add: example_env_def loop_entry_def initial_world_def)
  have running: "\<forall>s\<in>set (butlast (in_progress_run # [completed_run])). Status s \<noteq> Completed"
    by (simp add: in_progress_run_def Completed_def)
  have ended: "Status (last (in_progress_run # [completed_run])) = Completed"
    by (simp add: completed_run_def Completed_def)
  have none: "headers (trace ?w) = []"
    by (simp add: headers_def loop_entry_def initial_world_def NewCmdWatch_opts_def)
  from watch_loop_completes[OF jobs runs(1) running ended, of ?opts "[]"] failed none
  have 1: "returned (watchRun ?opts ?E initial_world) = Some None
     \<and> headers (final_trace (watchRun ?opts ?E initial_world)) = [(completed_run, [])]"
    by (auto simp: returned_def final_trace_def)
  from watch_loop_completes[OF example_answers runs(2) running ended, of ?opts "'' #7''"] found none
  have 2: "returned (watchRun ?opts example_env initial_world) = Some None
     \<and> headers (final_trace (watchRun ?opts example_env initial_world)) = [(completed_run, '' #7'')]"
    by (auto simp: returned_def final_trace_def)
  from 1 2 show ?thesis by simp
qed

subsection \<open>C9: the command without a run selector\<close>




subsection \<open>C10: one pull-request lookup, before the loop\<close>

lemma calls_ignore_pr:
  "call_GetRun (E\<lparr>PullRequestForRun := f\<rparr>) = call_GetRun E"
  "call_Now (E\<lparr>PullRequestForRun := f\<rparr>) = call_Now E"
  "call_GetJobs (E\<lparr>PullRequestForRun := f\<rparr>) = call_GetJobs E"
  "call_GetAnnotations (E\<lparr>PullRequestForRun := f\<rparr>) = call_GetAnnotations E"
  "header_events opts (E\<lparr>PullRequestForRun := f\<rparr>) = header_events opts E"
  "jobs_events (E\<lparr>PullRequestForRun := f\<rparr>) = jobs_events E"
  "annotations_events (E\<lparr>PullRequestForRun := f\<rparr>) = annotations_events E"
  by (simp_all add: fun_eq_iff call_GetRun_def call_Now_def call_GetJobs_def
      call_GetAnnotations_def header_events_def jobs_events_def annotations_events_def)

lemma annotations_loop_ignores_pr:
  "annotations_loop (E\<lparr>PullRequestForRun := f\<rparr>) jobs acc w = annotations_loop E jobs acc w"
  by (induction jobs arbitrary: acc w) (simp_all add: calls_ignore_pr split: sum.split prod.split)

lemma renderRun_ignores_pr:
  "renderRun opts (E\<lparr>PullRequestForRun := f\<rparr>) run prNumber w = renderRun opts E run prNumber w"
  unfolding renderRun_def calls_ignore_pr annotations_loop_ignores_pr by (rule refl)

lemma watch_loop_ignores_pr_Some:
  "watch_loop opts E run prNumber w = Some y \<Longrightarrow>
     watch_loop opts (E\<lparr>PullRequestForRun := f\<rparr>) run prNumber w = Some y"
proof (induction rule: watch_loop.raw_induct[rotated 1, consumes 1])
  case (1 loop opts E run prNumber w y)
  show ?case
  proof (cases "Status run = Completed")
    case True
    with "1.hyps" show ?thesis
      by (subst watch_loop.simps) simp
  next
    case False
    obtain res w1 where rr: "renderRun opts E run prNumber w = (res, w1)"
      by (cases "renderRun opts E run prNumber w")
    show ?thesis
    proof (cases res)
      case (Inl err)
      with "1.hyps" False rr show ?thesis
        by (subst watch_loop.simps) (simp add: renderRun_ignores_pr)
    next
      case (Inr r)
      with "1.hyps" False rr have
        "loop opts E r prNumber (emit (Sleep (Interval opts * 1000)) w1) = Some y" by simp
      from "1.IH"[OF this] False rr Inr show ?thesis
        by (subst watch_loop.simps) (simp add: renderRun_ignores_pr)
    qed
  qed
qed

lemma watch_loop_ignores_pr:
  "watch_loop opts (E\<lparr>PullRequestForRun := f\<rparr>) run prNumber w = watch_loop opts E run prNumber w"
proof (cases "watch_loop opts E run prNumber w")
  case (Some y)
  with watch_loop_ignores_pr_Some[OF Some, of f] show ?thesis by simp
next
  case None
  show ?thesis
  proof (cases "watch_loop opts (E\<lparr>PullRequestForRun := f\<rparr>) run prNumber w")
    case None
    with \<open>watch_loop opts E run prNumber w = None\<close> show ?thesis by simp
  next
    case (Some y)
    from watch_loop_ignores_pr_Some[OF Some, of "PullRequestForRun E"]
    have "watch_loop opts E run prNumber w = Some y" by simp
    with \<open>watch_loop opts E run prNumber w = None\<close> show ?thesis by simp
  qed
qed

lemma watchRun_trace:
  assumes "watchRun opts E w = Some (res, w')"
  shows "\<exists>es pr. trace w' = trace w @ es
           \<and> length (filter is_pr_lookup es) \<le> 1
           \<and> pr_calls w' \<le> Suc (pr_calls w)
           \<and> (\<forall>h\<in>set (headers es). snd h = pr)"
proof -
  consider (client) e where "HttpClient E = Some e"
    | (repo) e where "HttpClient E = None" "BaseRepo E = Some e"
    | (prompt) e where "HttpClient E = None" "BaseRepo E = None" "Prompt opts" "PromptForRun E = Inl e"
    | (fetch) runID e where "HttpClient E = None" "BaseRepo E = None"
        "if Prompt opts then PromptForRun E = Inr runID else RunID opts = runID"
        "GetRun E (run_calls w) = Inl e"
    | (loop) runID run where "HttpClient E = None" "BaseRepo E = None"
        "if Prompt opts then PromptForRun E = Inr runID else RunID opts = runID"
        "GetRun E (run_calls w) = Inr run"
  proof (cases "HttpClient E")
    case (Some e) then show ?thesis using client by blast
  next
    case None
    note h = this
    show ?thesis
    proof (cases "BaseRepo E")
      case (Some e) then show ?thesis using repo h by blast
    next
      case None
      note b = this
      have "(\<exists>e. Prompt opts \<and> PromptForRun E = Inl e)
          \<or> (\<exists>runID. if Prompt opts then PromptForRun E = Inr runID else RunID opts = runID)"
        by (cases "PromptForRun E") auto
      then show ?thesis
      proof
        assume "\<exists>e. Prompt opts \<and> PromptForRun E = Inl e"
        then show ?thesis using prompt h b by blast
      next
        assume "\<exists>runID. if Prompt opts then PromptForRun E = Inr runID else RunID opts = runID"
        then obtain runID where
          id: "if Prompt opts then PromptForRun E = Inr runID else RunID opts = runID" by blast
        show ?thesis
          by (cases "GetRun E (run_calls w)") (use fetch loop h b id in blast)+
      qed
    qed
  qed
  then show ?thesis
  proof cases
    case (client e)
    with assms have "trace w' = trace w @ [CallHttpClient]" "pr_calls w' = pr_calls w"
      by (auto simp: watchRun_def Let_def emit_def)
    then show ?thesis by (intro exI[of _ "[CallHttpClient]"]) (simp add: headers_def)
  next
    case (repo e)
    with assms have "trace w' = trace w @ [CallHttpClient, CallBaseRepo]" "pr_calls w' = pr_calls w"
      by (auto simp: watchRun_def Let_def emit_def)
    then show ?thesis by (intro exI[of _ "[CallHttpClient, CallBaseRepo]"]) (simp add: headers_def)
  next
    case (prompt e)
    with assms have "trace w' = trace w @ [CallHttpClient, CallBaseRepo, CallPromptForRun]"
      "pr_calls w' = pr_calls w"
      by (auto simp: watchRun_def Let_def emit_def)
    then show ?thesis
      by (intro exI[of _ "[CallHttpClient, CallBaseRepo, CallPromptForRun]"]) (simp add: headers_def)
  next
    case (fetch runID e)
    with assms have "trace w' = trace w @ [CallHttpClient, CallBaseRepo]
         @ (if Prompt opts then [CallPromptForRun] else []) @ [CallGetRun runID]"
      "pr_calls w' = pr_calls w"
      by (auto simp: watchRun_def Let_def emit_def call_GetRun_def split: if_splits)
    then show ?thesis
      by (intro exI[of _ "[CallHttpClient, CallBaseRepo]
         @ (if Prompt opts then [CallPromptForRun] else []) @ [CallGetRun runID]"])
         (simp add: headers_def)
  next
    case (loop runID run)
    let ?pr = "case PullRequestForRun E (pr_calls w) of
                Inl err \<Rightarrow> [] | Inr number \<Rightarrow> '' #'' @ Sprintf_d number"
    from watchRun_enters_loop[OF loop] assms
    have "watch_loop opts E run ?pr (loop_entry opts runID run w) = Some (res, w')" by simp
    from watch_loop_trace[OF this] obtain es where es:
      "trace w' = trace (loop_entry opts runID run w) @ es"
      "pr_calls w' = pr_calls (loop_entry opts runID run w)"
      "filter is_pr_lookup es = []"
      "\<forall>h\<in>set (concat (map header_of es)). snd h = ?pr" by auto
    let ?es = "[CallHttpClient, CallBaseRepo] @ (if Prompt opts then [CallPromptForRun] else [])
                  @ [CallGetRun runID, CallPullRequestForRun run, Fprint (ESC # ''[2J'')] @ es"
    have "trace w' = trace w @ ?es" using es(1) by (simp add: loop_entry_def)
    moreover have "length (filter is_pr_lookup ?es) \<le> 1" using es(3) by simp
    moreover have "pr_calls w' \<le> Suc (pr_calls w)" using es(2) by (simp add: loop_entry_def)
    moreover have "\<forall>h\<in>set (headers ?es). snd h = ?pr" using es(4) by (simp add: headers_def)
    ultimately show ?thesis by blast
  qed
qed

text \<open>
  Claim C10.  Once the client and the repository are obtained, the run is selected and the
  initial fetch has returned \<open>run0\<close>, \<^verbatim>\<open>watchRun\<close> makes the pull-request lookup for
  \<open>run0\<close>, once and before it enters its loop (no header is rendered before), and it is its
  loop started with the suffix computed from the answer of that lookup; a \<^verbatim>\<open>watchRun\<close> that
  returns has made exactly that one lookup and every header it rendered carries that
  suffix.  Inside the loop, an iteration makes no lookup and gives the suffix it received
  to the header it renders, and the loop hands the same suffix from iteration to
  iteration.  What the lookup would answer later has no effect: the loop is the same
  function whatever \<^verbatim>\<open>PullRequestForRun\<close> is.
\<close>

theorem pr_number_is_looked_up_once:
  "pr_calls (snd (renderRun opts E run prNumber w)) = pr_calls w
   \<and> (\<exists>es. trace (snd (renderRun opts E run prNumber w)) = trace w @ es
         \<and> filter is_pr_lookup es = []
         \<and> headers es = (case fst (renderRun opts E run prNumber w) of
                           Inl err \<Rightarrow> [] | Inr r \<Rightarrow> [(r, prNumber)]))
   \<and> (\<forall>res w'. watch_loop opts E run prNumber w = Some (res, w') \<longrightarrow>
         pr_calls w' = pr_calls w
       \<and> (\<exists>es. trace w' = trace w @ es \<and> filter is_pr_lookup es = []
             \<and> (\<forall>h\<in>set (headers es). snd h = prNumber)))
   \<and> (\<forall>res w'. watchRun opts E w = Some (res, w') \<longrightarrow>
         (\<exists>es pr. trace w' = trace w @ es
             \<and> length (filter is_pr_lookup es) \<le> 1
             \<and> pr_calls w' \<le> Suc (pr_calls w)
             \<and> (\<forall>h\<in>set (headers es). snd h = pr)))
   \<and> (HttpClient E = None \<and> BaseRepo E = None
       \<and> (if Prompt opts then PromptForRun E = Inr runID else RunID opts = runID)
       \<and> GetRun E (run_calls w) = Inr run0 \<longrightarrow>
         watchRun opts E w =
           watch_loop opts E run0
             (case PullRequestForRun E (pr_calls w) of
                Inl err \<Rightarrow> [] | Inr number \<Rightarrow> '' #'' @ Sprintf_d number)
             (loop_entry opts runID run0 w)
       \<and> filter is_pr_lookup (trace (loop_entry opts runID run0 w))
           = filter is_pr_lookup (trace w) @ [CallPullRequestForRun run0]
       \<and> pr_calls (loop_entry opts runID run0 w) = Suc (pr_calls w)
       \<and> headers (trace (loop_entry opts runID run0 w)) = headers (trace w)
       \<and> (\<forall>res w'. watchRun opts E w = Some (res, w') \<longrightarrow>
             pr_calls w' = Suc (pr_calls w)
           \<and> filter is_pr_lookup (trace w')
               = filter is_pr_lookup (trace w) @ [CallPullRequestForRun run0]
           \<and> (\<exists>es. trace w' = trace (loop_entry opts runID run0 w) @ es
                 \<and> filter is_pr_lookup es = []
                 \<and> (\<forall>h\<in>set (headers es).
                       snd h = (case PullRequestForRun E (pr_calls w) of
                                  Inl err \<Rightarrow> [] | Inr number \<Rightarrow> '' #'' @ Sprintf_d number)))))
   \<and> watch_loop opts (E\<lparr>PullRequestForRun := f\<rparr>) run prNumber w
       = watch_loop opts E run prNumber w"
proof (intro conjI allI impI)
  obtain es where es:
    "trace (snd (renderRun opts E run prNumber w)) = trace w @ es"
    "pr_calls (snd (renderRun opts E run prNumber w)) = pr_calls w"
    "filter is_pr_lookup es = []"
    "concat (map header_of es) =
       (case fst (renderRun opts E run prNumber w) of Inl err \<Rightarrow> [] | Inr r \<Rightarrow> [(r, prNumber)])"
    by (rule renderRun_effect)
  from es(2) show "pr_calls (snd (renderRun opts E run prNumber w)) = pr_calls w" .
  from es(1,3,4) show "\<exists>es. trace (snd (renderRun opts E run prNumber w)) = trace w @ es
         \<and> filter is_pr_lookup es = []
         \<and> headers es = (case fst (renderRun opts E run prNumber w) of
                           Inl err \<Rightarrow> [] | Inr r \<Rightarrow> [(r, prNumber)])"
    by (auto simp: headers_def)
next
  fix res w' assume l: "watch_loop opts E run prNumber w = Some (res, w')"
  from watch_loop_trace[OF l] show "pr_calls w' = pr_calls w" by auto
  from watch_loop_trace[OF l] show "\<exists>es. trace w' = trace w @ es \<and> filter is_pr_lookup es = []
             \<and> (\<forall>h\<in>set (headers es). snd h = prNumber)"
    by (auto simp: headers_def)
next
  fix res w' assume "watchRun opts E w = Some (res, w')"
  then show "\<exists>es pr. trace w' = trace w @ es
             \<and> length (filter is_pr_lookup es) \<le> 1
             \<and> pr_calls w' \<le> Suc (pr_calls w)
             \<and> (\<forall>h\<in>set (headers es). snd h = pr)"
    by (rule watchRun_trace)
next
  let ?pr = "case PullRequestForRun E (pr_calls w) of
               Inl err \<Rightarrow> [] | Inr number \<Rightarrow> '' #'' @ Sprintf_d number"
  assume a: "HttpClient E = None \<and> BaseRepo E = None
       \<and> (if Prompt opts then PromptForRun E = Inr runID else RunID opts = runID)
       \<and> GetRun E (run_calls w) = Inr run0"
  then show eq: "watchRun opts E w = watch_loop opts E run0 ?pr (loop_entry opts runID run0 w)"
    by (intro watchRun_enters_loop) simp_all
  show lookup: "filter is_pr_lookup (trace (loop_entry opts runID run0 w))
           = filter is_pr_lookup (trace w) @ [CallPullRequestForRun run0]"
    by (simp add: loop_entry_def)
  show calls: "pr_calls (loop_entry opts runID run0 w) = Suc (pr_calls w)"
    by (simp add: loop_entry_def)
  show "headers (trace (loop_entry opts runID run0 w)) = headers (trace w)"
    by (simp add: loop_entry_def headers_def)
  fix res w' assume "watchRun opts E w = Some (res, w')"
  with eq have "watch_loop opts E run0 ?pr (loop_entry opts runID run0 w) = Some (res, w')"
    by simp
  from watch_loop_trace[OF this] obtain es where es:
    "trace w' = trace (loop_entry opts runID run0 w) @ es"
    "pr_calls w' = pr_calls (loop_entry opts runID run0 w)"
    "filter is_pr_lookup es = []"
    "\<forall>h\<in>set (concat (map header_of es)). snd h = ?pr" by auto
  from es(2) calls show "pr_calls w' = Suc (pr_calls w)" by simp
  from es(1,3) lookup show "filter is_pr_lookup (trace w')
      = filter is_pr_lookup (trace w) @ [CallPullRequestForRun run0]" by simp
  from es(1,3,4) show "\<exists>es. trace w' = trace (loop_entry opts runID run0 w) @ es
                 \<and> filter is_pr_lookup es = []
                 \<and> (\<forall>h\<in>set (headers es). snd h = ?pr)"
    by (auto simp: headers_def)
next
  show "watch_loop opts (E\<lparr>PullRequestForRun := f\<rparr>) run prNumber w
       = watch_loop opts E run prNumber w"
    by (rule watch_loop_ignores_pr)
qed

theorem pr_number_is_looked_up_once_witness:
  "returned (watch_loop NewCmdWatch_opts example_env in_progress_run '' #7'' initial_world) = Some None
   \<and> filter is_pr_lookup
        (final_trace (watch_loop NewCmdWatch_opts example_env in_progress_run '' #7'' initial_world)) = []
   \<and> map snd (headers (final_trace
          (watch_loop NewCmdWatch_opts example_env in_progress_run '' #7'' initial_world)))
       = ['' #7'', '' #7'']
   \<and> returned (watchRun (NewCmdWatch_opts\<lparr>RunID := ''42''\<rparr>) example_env initial_world) = Some None
   \<and> length (filter is_pr_lookup
        (final_trace (watchRun (NewCmdWatch_opts\<lparr>RunID := ''42''\<rparr>) example_env initial_world))) \<le> 1
   \<and> filter is_pr_lookup
        (final_trace (watchRun (NewCmdWatch_opts\<lparr>RunID := ''42''\<rparr>) example_env initial_world))
       = [CallPullRequestForRun in_progress_run]
   \<and> map snd (headers
        (final_trace (watchRun (NewCmdWatch_opts\<lparr>RunID := ''42''\<rparr>) example_env initial_world)))
       = ['' #7'']
   \<and> headers (final_trace (watchRun (NewCmdWatch_opts\<lparr>RunID := ''42''\<rparr>)
        (example_env\<lparr>PullRequestForRun := (\<lambda>k. Inl api_down)\<rparr>) initial_world))
       = [(completed_run, [])]
   \<and> watch_loop NewCmdWatch_opts (example_env\<lparr>PullRequestForRun := (\<lambda>k. Inr 8)\<rparr>)
        in_progress_run '' #7'' initial_world
       = watch_loop NewCmdWatch_opts example_env in_progress_run '' #7'' initial_world"
proof -
  let ?opts = "NewCmdWatch_opts\<lparr>RunID := ''42''\<rparr>"
  let ?w = "loop_entry ?opts ''42'' in_progress_run initial_world"
  have runs: "\<forall>k<length [in_progress_run, completed_run].
      GetRun example_env (run_calls initial_world + k) = Inr ([in_progress_run, completed_run] ! k)"
    by (simp add: example_env_def initial_world_def less_Suc_eq)
  have running: "\<forall>s\<in>set (butlast (in_progress_run # [in_progress_run, completed_run])).
      Status s \<noteq> Completed"
    by (simp add: in_progress_run_def Completed_def)
  have ended: "Status (last (in_progress_run # [in_progress_run, completed_run])) = Completed"
    by (simp add: completed_run_def Completed_def)
  from watch_loop_completes[OF example_answers runs running ended, of NewCmdWatch_opts "'' #7''"]
  obtain w1 where w1: "watch_loop NewCmdWatch_opts example_env in_progress_run '' #7'' initial_world
      = Some (None, w1)"
    and h1: "headers (trace w1) = headers (trace initial_world)
      @ map (\<lambda>r. (r, '' #7'')) [in_progress_run, completed_run]" by blast
  note t = pr_number_is_looked_up_once
    [where opts = NewCmdWatch_opts and E = example_env and run = in_progress_run
       and prNumber = "'' #7''" and w = initial_world and f = "\<lambda>k. Inr 8"]
  from t[THEN conjunct2, THEN conjunct2, THEN conjunct1, THEN spec, THEN spec, THEN mp, OF w1]
  obtain es where es: "trace w1 = trace initial_world @ es" "filter is_pr_lookup es = []"
    "\<forall>h\<in>set (headers es). snd h = '' #7''" by blast
  from w1 es h1 have 1:
    "returned (watch_loop NewCmdWatch_opts example_env in_progress_run '' #7'' initial_world) = Some None
     \<and> filter is_pr_lookup
        (final_trace (watch_loop NewCmdWatch_opts example_env in_progress_run '' #7'' initial_world)) = []
     \<and> map snd (headers (final_trace
          (watch_loop NewCmdWatch_opts example_env in_progress_run '' #7'' initial_world)))
       = ['' #7'', '' #7'']"
    by (simp add: returned_def final_trace_def initial_world_def headers_def)
  have id: "if Prompt ?opts then PromptForRun example_env = Inr ''42'' else RunID ?opts = ''42''"
    by (simp add: NewCmdWatch_opts_def)
  have client: "HttpClient example_env = None" "BaseRepo example_env = None"
    "GetRun example_env (run_calls initial_world) = Inr in_progress_run"
    by (simp_all add: example_env_def initial_world_def)
  note enter = watchRun_enters_loop[OF client(1,2) id client(3)]
  have runs': "\<forall>k<length [completed_run]. GetRun example_env (run_calls ?w + k) = Inr ([completed_run] ! k)"
    by (simp add: example_env_def loop_entry_def initial_world_def)
  have running': "\<forall>s\<in>set (butlast (in_progress_run # [completed_run])). Status s \<noteq> Completed"
    by (simp add: in_progress_run_def Completed_def)
  have ended': "Status (last (in_progress_run # [completed_run])) = Completed"
    by (simp add: completed_run_def Completed_def)
  have seven: "(case PullRequestForRun example_env (pr_calls initial_world) of
                  Inl err \<Rightarrow> [] | Inr number \<Rightarrow> '' #'' @ Sprintf_d number) = '' #7''"
    by (simp add: example_env_def Sprintf_d_def digits.simps)
  have started: "HttpClient example_env = None \<and> BaseRepo example_env = None
      \<and> (if Prompt ?opts then PromptForRun example_env = Inr ''42'' else RunID ?opts = ''42'')
      \<and> GetRun example_env (run_calls initial_world) = Inr in_progress_run"
    using client id by simp
  note once = pr_number_is_looked_up_once
    [where opts = ?opts and E = example_env and w = initial_world and runID = "''42''"
       and ?run0.0 = in_progress_run,
     THEN conjunct2, THEN conjunct2, THEN conjunct2, THEN conjunct2, THEN conjunct1,
     THEN mp, OF started]
  from once have entered: "watchRun ?opts example_env initial_world
      = watch_loop ?opts example_env in_progress_run '' #7'' ?w"
    by (simp add: seven)
  from watch_loop_completes[OF example_answers runs' running' ended', of ?opts "'' #7''"] entered
  obtain w2 where w2: "watchRun ?opts example_env initial_world = Some (None, w2)"
    and h2: "headers (trace w2) = headers (trace ?w) @ map (\<lambda>r. (r, '' #7'')) [completed_run]"
    by auto
  from once w2 have "filter is_pr_lookup (trace w2)
      = filter is_pr_lookup (trace initial_world) @ [CallPullRequestForRun in_progress_run]"
    and "headers (trace ?w) = headers (trace initial_world)"
    by blast+
  with w2 h2 have 4: "filter is_pr_lookup (final_trace (watchRun ?opts example_env initial_world))
       = [CallPullRequestForRun in_progress_run]
     \<and> map snd (headers (final_trace (watchRun ?opts example_env initial_world))) = ['' #7'']"
    by (simp add: final_trace_def initial_world_def headers_def)
  let ?F = "example_env\<lparr>PullRequestForRun := (\<lambda>k. Inl api_down)\<rparr>"
  have started': "HttpClient ?F = None \<and> BaseRepo ?F = None
      \<and> (if Prompt ?opts then PromptForRun ?F = Inr ''42'' else RunID ?opts = ''42'')
      \<and> GetRun ?F (run_calls initial_world) = Inr in_progress_run"
    using client id by simp
  note failing = pr_number_is_looked_up_once
    [where opts = ?opts and E = ?F and w = initial_world and runID = "''42''"
       and ?run0.0 = in_progress_run,
     THEN conjunct2, THEN conjunct2, THEN conjunct2, THEN conjunct2, THEN conjunct1,
     THEN mp, OF started']
  from failing have entered': "watchRun ?opts ?F initial_world
      = watch_loop ?opts ?F in_progress_run [] ?w"
    by simp
  have answers': "\<forall>k. \<exists>js. GetJobs ?F k = Inr js" "\<forall>k. \<exists>as. GetAnnotations ?F k = Inr as"
    using example_answers by simp_all
  have runs'': "\<forall>k<length [completed_run]. GetRun ?F (run_calls ?w + k) = Inr ([completed_run] ! k)"
    using runs' by simp
  from watch_loop_completes[OF answers' runs'' running' ended', of ?opts "[]"] entered'
  obtain w3 where w3: "watchRun ?opts ?F initial_world = Some (None, w3)"
    and h3: "headers (trace w3) = headers (trace ?w) @ map (\<lambda>r. (r, [])) [completed_run]"
    by auto
  from failing have "headers (trace ?w) = headers (trace initial_world)" by blast
  with w3 h3 have 5: "headers (final_trace (watchRun ?opts ?F initial_world)) = [(completed_run, [])]"
    by (simp add: final_trace_def initial_world_def headers_def)
  from pr_number_is_looked_up_once[where opts = ?opts and E = example_env and w = initial_world,
         THEN conjunct2, THEN conjunct2, THEN conjunct2, THEN conjunct1, THEN spec, THEN spec,
         THEN mp, OF w2]
  obtain es' where "trace w2 = trace initial_world @ es'" "length (filter is_pr_lookup es') \<le> 1"
    by blast
  with w2 have 2: "returned (watchRun ?opts example_env initial_world) = Some None
     \<and> length (filter is_pr_lookup (final_trace (watchRun ?opts example_env initial_world))) \<le> 1"
    by (simp add: returned_def final_trace_def initial_world_def)
  from t have 3: "watch_loop NewCmdWatch_opts (example_env\<lparr>PullRequestForRun := (\<lambda>k. Inr 8)\<rparr>)
        in_progress_run '' #7'' initial_world
       = watch_loop NewCmdWatch_opts example_env in_progress_run '' #7'' initial_world"
    by blast
  from 1 2 3 4 5 show ?thesis by blast
qed

end
